theory Spec2Isabelle
  imports Main "HOL-Library.Multiset"
begin

section \<open>JavaScript strings\<close>

text \<open>
  The server (\<^verbatim>\<open>server.js\<close>) works on JavaScript strings. A string is modelled as a
  \<^typ>\<open>string\<close>, each character read as one code unit in the range U+0000 to U+00FF.
  In that range the white space of \<^verbatim>\<open>\s\<close> and of \<^verbatim>\<open>trim()\<close> is TAB, LF, VT, FF, CR,
  SPACE and NBSP; the digits of \<^verbatim>\<open>\d\<close> are 0 to 9.
\<close>

definition isSpace :: "char \<Rightarrow> bool" where
  "isSpace c \<longleftrightarrow> of_char c \<in> set [9, 10, 11, 12, 13, 32, 160 :: nat]"

definition isDigit :: "char \<Rightarrow> bool" where
  "isDigit c \<longleftrightarrow> 48 \<le> (of_char c :: nat) \<and> (of_char c :: nat) \<le> 57"

text \<open>\<^verbatim>\<open>s.trim()\<close>\<close>

definition js_trim :: "string \<Rightarrow> string" where
  "js_trim s = rev (dropWhile isSpace (rev (dropWhile isSpace s)))"

text \<open>\<^verbatim>\<open>s.replace(/\s+/g, ' ')\<close>: every maximal run of white space becomes one space.\<close>

function collapseWs :: "string \<Rightarrow> string" where
  "collapseWs [] = []"
| "collapseWs (c # cs) =
     (if isSpace c then CHR '' '' # collapseWs (dropWhile isSpace cs)
      else c # collapseWs cs)"
  by pat_completeness auto
termination
  by (relation "measure length") (auto simp: length_dropWhile_le less_Suc_eq_le)

text \<open>\<^verbatim>\<open>s.toLowerCase()\<close> on the code units below U+0100.\<close>

definition toLowerChar :: "char \<Rightarrow> char" where
  "toLowerChar c =
     (let n = (of_char c :: nat) in
      if (65 \<le> n \<and> n \<le> 90) \<or> (192 \<le> n \<and> n \<le> 222 \<and> n \<noteq> 215)
      then char_of (n + 32) else c)"

definition toLowerCase :: "string \<Rightarrow> string" where
  "toLowerCase s = map toLowerChar s"

text \<open>\<^verbatim>\<open>s.padStart(n, c)\<close> for a one-character filler.\<close>

definition padStart :: "nat \<Rightarrow> char \<Rightarrow> string \<Rightarrow> string" where
  "padStart n c s = replicate (n - length s) c @ s"

text \<open>\<^verbatim>\<open>String(n)\<close> for a natural number \<open>n\<close> below \<open>2^53\<close>, as the track counters are: its decimal digits.\<close>

definition digitChar :: "nat \<Rightarrow> char" where
  "digitChar d = char_of (48 + d)"

function showNat :: "nat \<Rightarrow> string" where
  "showNat n = (if n < 10 then [digitChar n] else showNat (n div 10) @ [digitChar (n mod 10)])"
  by pat_completeness auto
termination
  by (relation "measure id") auto

declare showNat.simps [simp del]

text \<open>\<^verbatim>\<open>s.includes(c)\<close>, \<^verbatim>\<open>s.split(c)\<close> and \<^verbatim>\<open>parts.join(sep)\<close>.\<close>

definition js_includes :: "string \<Rightarrow> char \<Rightarrow> bool" where
  "js_includes s c \<longleftrightarrow> c \<in> set s"

fun js_split :: "char \<Rightarrow> string \<Rightarrow> string list" where
  "js_split sep [] = [[]]"
| "js_split sep (c # cs) =
     (if c = sep then [] # js_split sep cs
      else (case js_split sep cs of [] \<Rightarrow> [[c]] | p # ps \<Rightarrow> (c # p) # ps))"

definition joinWith :: "string \<Rightarrow> string list \<Rightarrow> string" where
  "joinWith sep parts =
     (case parts of [] \<Rightarrow> [] | p # ps \<Rightarrow> p @ concat (map (\<lambda>q. sep @ q) ps))"

text \<open>
  \<^verbatim>\<open>a < b\<close> on two strings: the first differing code unit decides, a proper prefix is
  smaller.
\<close>

fun strLess :: "string \<Rightarrow> string \<Rightarrow> bool" where
  "strLess [] [] = False"
| "strLess [] (y # ys) = True"
| "strLess (x # xs) [] = False"
| "strLess (x # xs) (y # ys) =
     (if x = y then strLess xs ys else (of_char x :: nat) < of_char y)"

subsection \<open>Strings as numbers\<close>

text \<open>
  \<^verbatim>\<open>isNaN(s)\<close> converts the string with \<^verbatim>\<open>Number(s)\<close>: white space is trimmed, the empty
  string is 0, and the rest must be a numeric literal: an unsigned \<^verbatim>\<open>0x\<close>, \<^verbatim>\<open>0o\<close> or
  \<^verbatim>\<open>0b\<close> literal, or an optionally signed \<^verbatim>\<open>Infinity\<close> or decimal literal (digits with
  an optional fraction and exponent).
\<close>

definition allDigits :: "string \<Rightarrow> bool" where
  "allDigits s \<longleftrightarrow> s \<noteq> [] \<and> list_all isDigit s"

definition stripSign :: "string \<Rightarrow> string" where
  "stripSign s =
     (case s of [] \<Rightarrow> [] | c # cs \<Rightarrow> if c = CHR ''+'' \<or> c = CHR ''-'' then cs else s)"

definition isExpChar :: "char \<Rightarrow> bool" where
  "isExpChar c \<longleftrightarrow> c = CHR ''e'' \<or> c = CHR ''E''"

definition isMantissa :: "string \<Rightarrow> bool" where
  "isMantissa m =
     (let i = takeWhile (\<lambda>c. c \<noteq> CHR ''.'') m; f = dropWhile (\<lambda>c. c \<noteq> CHR ''.'') m in
      list_all isDigit i \<and>
      (if f = [] then i \<noteq> [] else list_all isDigit (tl f) \<and> (i \<noteq> [] \<or> tl f \<noteq> [])))"

definition isDecimalLiteral :: "string \<Rightarrow> bool" where
  "isDecimalLiteral u =
     (u = ''Infinity'' \<or>
      (let m = takeWhile (\<lambda>c. \<not> isExpChar c) u; e = dropWhile (\<lambda>c. \<not> isExpChar c) u in
       isMantissa m \<and> (e = [] \<or> allDigits (stripSign (tl e)))))"

definition radixDigit :: "nat \<Rightarrow> char \<Rightarrow> nat option" where
  "radixDigit r c =
     (let n = (of_char c :: nat);
          v = (if 48 \<le> n \<and> n \<le> 57 then n - 48
               else if 97 \<le> n \<and> n \<le> 122 then n - 87
               else if 65 \<le> n \<and> n \<le> 90 then n - 55 else r)
      in if v < r then Some v else None)"

definition isRadixLiteral :: "string \<Rightarrow> bool" where
  "isRadixLiteral t =
     (case t of
        z # x # ds \<Rightarrow>
          z = CHR ''0'' \<and> ds \<noteq> [] \<and>
          (if x = CHR ''x'' \<or> x = CHR ''X'' then list_all (\<lambda>c. radixDigit 16 c \<noteq> None) ds
           else if x = CHR ''o'' \<or> x = CHR ''O'' then list_all (\<lambda>c. radixDigit 8 c \<noteq> None) ds
           else if x = CHR ''b'' \<or> x = CHR ''B'' then list_all (\<lambda>c. radixDigit 2 c \<noteq> None) ds
           else False)
      | _ \<Rightarrow> False)"

definition js_isNaN :: "string \<Rightarrow> bool" where
  "js_isNaN s =
     (let t = js_trim s in
      \<not> (t = [] \<or> isRadixLiteral t \<or> isDecimalLiteral (stripSign t)))"

text \<open>
  The numbers that \<^verbatim>\<open>parseInt\<close> returns are doubles with an integer value, or an
  infinity. \<open>roundToDouble n\<close> is the double nearest to the natural number \<open>n\<close>: \<open>n\<close>
  itself below \<open>2^53\<close> (the numeral 9007199254740992), and otherwise \<open>n\<close> rounded to 53
  significant bits, a tie going to the even neighbour. From \<open>2^1024\<close> on the rounded
  value is an infinity.
\<close>

function bitLength :: "int \<Rightarrow> nat" where
  "bitLength n = (if n \<le> 0 then 0 else Suc (bitLength (n div 2)))"
  by pat_completeness auto
termination
  by (relation "measure nat") auto

declare bitLength.simps [simp del]

datatype number = Num int | PlusInfinity | MinusInfinity

definition roundToDouble :: "int \<Rightarrow> int" where
  "roundToDouble n =
     (if n < 9007199254740992 then n
      else
        let e = bitLength n - 53;
            q = n div 2 ^ e;
            r = n mod 2 ^ e;
            half = 2 ^ (e - 1)
        in (if half < r \<or> (r = half \<and> odd q) then q + 1 else q) * 2 ^ e)"

definition toNumber :: "bool \<Rightarrow> int \<Rightarrow> number" where
  "toNumber neg n =
     (if n < 9007199254740992 then Num (if neg then - n else n)
      else
        let d = roundToDouble n in
        if 2 ^ 1024 \<le> d then (if neg then MinusInfinity else PlusInfinity)
        else Num (if neg then - d else d))"

text \<open>
  \<^verbatim>\<open>parseInt(s)\<close>: leading white space and a sign are skipped, a \<^verbatim>\<open>0x\<close> prefix selects
  base 16, and the longest prefix of digits is read and rounded to a double; \<open>None\<close> is
  NaN.
\<close>

definition parseInt :: "string \<Rightarrow> number option" where
  "parseInt s =
     (let t = dropWhile isSpace s;
          neg = (case t of [] \<Rightarrow> False | c # _ \<Rightarrow> c = CHR ''-'');
          u = stripSign t;
          hex = (case u of z # x # _ \<Rightarrow> z = CHR ''0'' \<and> (x = CHR ''x'' \<or> x = CHR ''X'') | _ \<Rightarrow> False);
          r = (if hex then 16 else 10);
          ds = takeWhile (\<lambda>c. radixDigit r c \<noteq> None) (if hex then drop 2 u else u);
          v = foldl (\<lambda>acc c. acc * int r
                       + (case radixDigit r c of Some d \<Rightarrow> int d | None \<Rightarrow> 0)) 0 ds
      in if ds = [] then None else Some (toNumber neg v))"

text \<open>
  \<^verbatim>\<open>String(x)\<close> for such a number. Below \<open>2^53\<close> the digits of the integer. From there
  on the digits are those of the decimal number with the fewest significant digits that
  rounds to \<open>x\<close> (the nearest to \<open>x\<close> when there are several, the one with the even last
  digit at a tie), which for \<open>k\<close> significant digits is one of the two neighbours of \<open>x\<close>
  among the multiples of the power of ten in question; that number is written in full
  below \<open>10^21\<close> and in exponent form from there on.
\<close>

function showDecimal :: "int \<Rightarrow> string" where
  "showDecimal n =
     (if n < 10 then [digitChar (nat n)]
      else showDecimal (n div 10) @ [digitChar (nat (n mod 10))])"
  by pat_completeness auto
termination
  by (relation "measure nat") auto

declare showDecimal.simps [simp del]

definition shortestDecimal :: "int \<Rightarrow> int" where
  "shortestDecimal x =
     (let len = length (showDecimal x);
          candidates = (\<lambda>k.
             let p = 10 ^ (len - k);
                 lo = (x div p) * p;
                 hi = lo + p;
                 okLo = (roundToDouble lo = x);
                 okHi = (roundToDouble hi = x)
             in if okLo \<and> okHi then
                  (if x - lo < hi - x then [lo]
                   else if hi - x < x - lo then [hi]
                   else if even (x div p) then [lo] else [hi])
                else if okLo then [lo] else if okHi then [hi] else [])
      in case concat (map candidates [1 ..< len + 1]) of [] \<Rightarrow> x | v # _ \<Rightarrow> v)"

definition exponentForm :: "int \<Rightarrow> string" where
  "exponentForm v =
     (let ds = showDecimal v;
          s = rev (dropWhile (\<lambda>c. c = CHR ''0'') (rev ds))
      in hd s # (if tl s = [] then [] else CHR ''.'' # tl s) @ ''e+'' @ showNat (length ds - 1))"

definition magnitudeToString :: "int \<Rightarrow> string" where
  "magnitudeToString x =
     (if x < 9007199254740992 then showDecimal x
      else let v = shortestDecimal x in
           if v < 10 ^ 21 then showDecimal v else exponentForm v)"

fun numberToString :: "number \<Rightarrow> string" where
  "numberToString (Num i) =
     (if i < 0 then CHR ''-'' # magnitudeToString (- i) else magnitudeToString i)"
| "numberToString PlusInfinity = ''Infinity''"
| "numberToString MinusInfinity = ''-Infinity''"

section \<open>Name Sanitizer\<close>

text \<open>
  \<^verbatim>\<open>cleanFilename(name)\<close>: an empty name gives the empty string; otherwise each of the
  characters of \<^verbatim>\<open>invalidChars\<close> is removed in turn (the loop builds one global regular
  expression per character, escaped so that it matches the character itself), runs of white
  space are collapsed, and the result is trimmed.
\<close>

definition invalidChars :: string where
  "invalidChars =
     [CHR ''<'', CHR ''>'', CHR '':'', CHR 0x22, CHR ''/'', CHR 0x5C, CHR ''|'', CHR ''?'', CHR ''*'']"

definition removeAllChar :: "char \<Rightarrow> string \<Rightarrow> string" where
  "removeAllChar c s = filter (\<lambda>x. x \<noteq> c) s"

definition cleanFilename :: "string \<Rightarrow> string" where
  "cleanFilename name =
     (if name = [] then []
      else js_trim (collapseWs (fold removeAllChar invalidChars name)))"

text \<open>
  Two predicates on the result. \<open>singleSpaced s\<close>: every white-space character of \<open>s\<close> is a
  space and is not followed by white space. \<open>edgeSpace s\<close>: \<open>s\<close> starts or ends with white
  space.
\<close>

fun singleSpaced :: "string \<Rightarrow> bool" where
  "singleSpaced [] = True"
| "singleSpaced (c # cs) =
     ((if isSpace c then c = CHR '' '' \<and> (case cs of [] \<Rightarrow> True | d # _ \<Rightarrow> \<not> isSpace d)
       else True)
      \<and> singleSpaced cs)"

definition edgeSpace :: "string \<Rightarrow> bool" where
  "edgeSpace s = (case s of [] \<Rightarrow> False | c # _ \<Rightarrow> isSpace c \<or> isSpace (last s))"

section \<open>Natural Sort Comparator\<close>

text \<open>
  \<^verbatim>\<open>String(s).split(/(\d+)/)\<close>: the string is cut at its digit runs, which are kept; the
  result alternates between a (possibly empty) run without digits and a digit run, and ends
  with a run without digits.
\<close>

lemma dropWhile_twice_shorter:
  assumes "dropWhile (\<lambda>c. \<not> P c) s \<noteq> []"
  shows "length (dropWhile P (dropWhile (\<lambda>c. \<not> P c) s)) < length s"
proof -
  let ?r = "dropWhile (\<lambda>c. \<not> P c) s"
  from assms obtain c cs where r: "?r = c # cs" by (cases ?r) blast+
  have "\<not> \<not> P (hd ?r)" using assms by (rule hd_dropWhile)
  with r have "P c" by simp
  with r have "length (dropWhile P ?r) \<le> length cs" by (simp add: length_dropWhile_le)
  also have "\<dots> < length ?r" using r by simp
  also have "\<dots> \<le> length s" by (rule length_dropWhile_le)
  finally show ?thesis .
qed

function splitDigits :: "string \<Rightarrow> string list" where
  "splitDigits s =
     (let pre = takeWhile (\<lambda>c. \<not> isDigit c) s; rest = dropWhile (\<lambda>c. \<not> isDigit c) s in
      if rest = [] then [pre]
      else pre # takeWhile isDigit rest # splitDigits (dropWhile isDigit rest))"
  by pat_completeness auto
termination
  by (relation "measure length") (simp_all add: dropWhile_twice_shorter del: dropWhile_eq_Nil_conv)

declare splitDigits.simps [simp del]

text \<open>
  \<^verbatim>\<open>naturalSortKey(s)\<close> maps every part to its lower-case text when \<^verbatim>\<open>isNaN(part)\<close>, and to
  \<^verbatim>\<open>parseInt(part)\<close> otherwise. An element of the key is a string, a number or NaN (the
  value of \<^verbatim>\<open>parseInt\<close> on a part that \<^verbatim>\<open>Number\<close> reads as 0 or as an infinity, such as
  the empty part).
\<close>

datatype keyPart = KStr string | KNum number | KNaN

definition naturalSortKey :: "string \<Rightarrow> keyPart list" where
  "naturalSortKey s =
     map (\<lambda>part. if js_isNaN part then KStr (toLowerCase part)
                  else (case parseInt part of None \<Rightarrow> KNaN | Some n \<Rightarrow> KNum n))
         (splitDigits s)"

text \<open>
  The comparator of the scan handler compares the two keys with \<^verbatim>\<open>aKey < bKey\<close> and
  \<^verbatim>\<open>aKey > bKey\<close>. Both operands are arrays, so JavaScript converts each to a primitive
  first: \<^verbatim>\<open>Array.prototype.toString\<close>, which joins the elements' strings with commas. The
  two resulting strings are then compared as strings.
\<close>

fun keyPartToString :: "keyPart \<Rightarrow> string" where
  "keyPartToString (KStr s) = s"
| "keyPartToString (KNum n) = numberToString n"
| "keyPartToString KNaN = ''NaN''"

definition keyToString :: "keyPart list \<Rightarrow> string" where
  "keyToString k = joinWith '','' (map keyPartToString k)"

definition keyLess :: "keyPart list \<Rightarrow> keyPart list \<Rightarrow> bool" where
  "keyLess a b = strLess (keyToString a) (keyToString b)"

definition compareNames :: "string \<Rightarrow> string \<Rightarrow> int" where
  "compareNames a b =
     (let aKey = naturalSortKey a; bKey = naturalSortKey b in
      if keyLess aKey bKey then - 1 else if keyLess bKey aKey then 1 else 0)"

text \<open>
  \<^verbatim>\<open>Array.prototype.sort(cmp)\<close> is a stable sort. \<open>compareNames\<close> is a consistent
  comparator (it orders the key strings), so every stable sort returns the list below: the
  elements in ascending order, equal ones in their original order.
\<close>

fun insertBy :: "('a \<Rightarrow> 'a \<Rightarrow> int) \<Rightarrow> 'a \<Rightarrow> 'a list \<Rightarrow> 'a list" where
  "insertBy cmp x [] = [x]"
| "insertBy cmp x (y # ys) = (if cmp x y \<le> 0 then x # y # ys else y # insertBy cmp x ys)"

definition sortBy :: "('a \<Rightarrow> 'a \<Rightarrow> int) \<Rightarrow> 'a list \<Rightarrow> 'a list" where
  "sortBy cmp xs = foldr (insertBy cmp) xs []"

section \<open>Paths\<close>

text \<open>
  The functions of Node's \<^verbatim>\<open>path\<close> module that the server calls, in their POSIX form.
  \<^verbatim>\<open>path.normalize\<close> drops empty and \<^verbatim>\<open>.\<close> segments and resolves \<^verbatim>\<open>..\<close> against the
  segment before it; a relative path keeps the \<^verbatim>\<open>..\<close> segments that climb above its
  start. A trailing separator is kept.
\<close>

fun normalizeSegs :: "bool \<Rightarrow> string list \<Rightarrow> string list \<Rightarrow> string list" where
  "normalizeSegs allowAboveRoot res [] = rev res"
| "normalizeSegs allowAboveRoot res (seg # segs) =
     (if seg = [] \<or> seg = ''.'' then normalizeSegs allowAboveRoot res segs
      else if seg = ''..'' then
        (case res of
           [] \<Rightarrow> normalizeSegs allowAboveRoot (if allowAboveRoot then [''..''] else []) segs
         | r # rs \<Rightarrow>
             if r = ''..''
             then normalizeSegs allowAboveRoot (if allowAboveRoot then ''..'' # res else res) segs
             else normalizeSegs allowAboveRoot rs segs)
      else normalizeSegs allowAboveRoot (seg # res) segs)"

definition path_normalize :: "string \<Rightarrow> string" where
  "path_normalize p =
     (if p = [] then ''.''
      else
        let isAbsolute = (hd p = CHR ''/'');
            trailingSeparator = (last p = CHR ''/'');
            q = joinWith ''/'' (normalizeSegs (\<not> isAbsolute) [] (js_split CHR ''/'' p))
        in if q = [] then (if isAbsolute then ''/'' else if trailingSeparator then ''./'' else ''.'')
           else (if isAbsolute then ''/'' else []) @ q @ (if trailingSeparator then ''/'' else []))"

text \<open>\<^verbatim>\<open>path.join(...args)\<close>: the non-empty arguments joined with \<^verbatim>\<open>/\<close>, normalized.\<close>

definition path_join :: "string list \<Rightarrow> string" where
  "path_join args =
     (let joined = joinWith ''/'' (filter (\<lambda>a. a \<noteq> []) args) in
      if joined = [] then ''.'' else path_normalize joined)"

text \<open>
  \<^verbatim>\<open>path.dirname(p)\<close>: trailing separators are skipped, then the text before the last
  separator is returned (the separator at index 0 is the root).
\<close>

definition path_dirname :: "string \<Rightarrow> string" where
  "path_dirname p =
     (if p = [] then ''.''
      else
        let hasRoot = (hd p = CHR ''/'');
            r = dropWhile (\<lambda>c. c \<noteq> CHR ''/'') (dropWhile (\<lambda>c. c = CHR ''/'') (rev (tl p)));
            end = length r
        in if r = [] then (if hasRoot then ''/'' else ''.'')
           else if hasRoot \<and> end = 1 then ''//''
           else take end p)"

text \<open>
  \<^verbatim>\<open>path.extname(p)\<close>: the text from the last dot of the last path component, or the empty
  string when that component has no dot, starts with its only dot, or is \<^verbatim>\<open>..\<close>.
\<close>

definition path_extname :: "string \<Rightarrow> string" where
  "path_extname p =
     (let rbase = takeWhile (\<lambda>c. c \<noteq> CHR ''/'') (dropWhile (\<lambda>c. c = CHR ''/'') (rev p));
          rext = takeWhile (\<lambda>c. c \<noteq> CHR ''.'') rbase;
          rpre = dropWhile (\<lambda>c. c \<noteq> CHR ''.'') rbase
      in if rpre = [] \<or> tl rpre = [] \<or> rbase = ''..'' then []
         else CHR ''.'' # rev rext)"

section \<open>Metadata Normalizer\<close>

text \<open>
  The value \<^verbatim>\<open>JSON.parse\<close> returns for a sidecar file. A number is carried as the text
  \<^verbatim>\<open>String\<close> gives for it (so 0 is \<^verbatim>\<open>0\<close>); an object is its list of members in file
  order, and a later member with the same key overrides an earlier one.
\<close>

datatype json =
  JNull | JBool bool | JNum string | JStr string | JArr "json list" | JObj "(string \<times> json) list"

text \<open>\<^verbatim>\<open>data[key]\<close> for a value that is not null; \<open>None\<close> is \<^verbatim>\<open>undefined\<close>.\<close>

fun getProp :: "json \<Rightarrow> string \<Rightarrow> json option" where
  "getProp (JObj kvs) k = map_of (rev kvs) k"
| "getProp _ k = None"

fun truthy :: "json \<Rightarrow> bool" where
  "truthy JNull = False"
| "truthy (JBool b) = b"
| "truthy (JNum s) = (s \<noteq> ''0'')"
| "truthy (JStr s) = (s \<noteq> [])"
| "truthy (JArr _) = True"
| "truthy (JObj _) = True"

text \<open>\<^verbatim>\<open>String(value)\<close>\<close>

fun jsString :: "json \<Rightarrow> string" where
  "jsString (JStr s) = s"
| "jsString (JNum s) = s"
| "jsString (JBool b) = (if b then ''true'' else ''false'')"
| "jsString (JObj _) = ''[object Object]''"
| "jsString JNull = ''null''"
| "jsString (JArr xs) = joinWith '','' (map jsString xs)"

text \<open>
  \<^verbatim>\<open>cleanMetadata(value)\<close>. The two \<^verbatim>\<open>replace\<close> calls strip a leading bracket-and-quote
  and a trailing quote-and-bracket.
\<close>

definition isQuote :: "char \<Rightarrow> bool" where
  "isQuote c \<longleftrightarrow> c = CHR 0x27 \<or> c = CHR 0x22"

definition stripListOpen :: "string \<Rightarrow> string" where
  "stripListOpen s =
     (case s of b # q # r \<Rightarrow> if b = CHR ''['' \<and> isQuote q then r else s | _ \<Rightarrow> s)"

definition stripListClose :: "string \<Rightarrow> string" where
  "stripListClose s =
     (case rev s of b # q # r \<Rightarrow> if b = CHR '']'' \<and> isQuote q then rev r else s | _ \<Rightarrow> s)"

fun cleanMetadata :: "json \<Rightarrow> string" where
  "cleanMetadata JNull = []"
| "cleanMetadata (JArr []) = []"
| "cleanMetadata (JArr (v # vs)) = cleanMetadata v"
| "cleanMetadata v =
     (let s = jsString v;
          s1 = (if js_includes s CHR '','' then hd (js_split CHR '','' s) else s)
      in js_trim (stripListClose (stripListOpen s1)))"

text \<open>
  \<^verbatim>\<open>getMetadataValue(data, keyNames)\<close>: the first key of \<open>keyNames\<close> whose value in \<open>data\<close>
  is neither null nor undefined, then the same search in \<^verbatim>\<open>data.metadata || {}\<close>. Reading a
  property of \<^verbatim>\<open>null\<close> throws a TypeError, in the first loop or at \<^verbatim>\<open>data.metadata\<close>: the
  result \<open>None\<close>. The keys are those of the scan handler, none of which names a property
  that a string, an array or \<^verbatim>\<open>Object.prototype\<close> has of its own.
\<close>

fun firstPresent :: "json \<Rightarrow> string list \<Rightarrow> json option" where
  "firstPresent d [] = None"
| "firstPresent d (key # keys) =
     (case getProp d key of
        None \<Rightarrow> firstPresent d keys
      | Some JNull \<Rightarrow> firstPresent d keys
      | Some v \<Rightarrow> Some v)"

definition getMetadataValue :: "json \<Rightarrow> string list \<Rightarrow> string option" where
  "getMetadataValue d keyNames =
     (if d = JNull then None
      else case firstPresent d keyNames of
        Some v \<Rightarrow> Some (cleanMetadata v)
      | None \<Rightarrow>
          let meta = (case getProp d ''metadata'' of
                        None \<Rightarrow> JObj []
                      | Some m \<Rightarrow> if truthy m then m else JObj [])
          in (case firstPresent meta keyNames of
                Some v \<Rightarrow> Some (cleanMetadata v)
              | None \<Rightarrow> Some []))"

text \<open>\<^verbatim>\<open>s || d\<close> on strings.\<close>

definition orElse :: "string \<Rightarrow> string \<Rightarrow> string" where
  "orElse s d = (if s = [] then d else s)"

text \<open>
  The four fields the scan handler reads from the record, with their defaults: author, title,
  narrator and the raw series field.
\<close>

definition extractFields :: "json \<Rightarrow> (string \<times> string \<times> string \<times> string) option" where
  "extractFields d =
     (case getMetadataValue d [''authorName'', ''author'', ''authors'', ''bookAuthor''] of
        None \<Rightarrow> None
      | Some a \<Rightarrow>
     (case getMetadataValue d [''title'', ''bookTitle''] of
        None \<Rightarrow> None
      | Some t \<Rightarrow>
     (case getMetadataValue d [''narratorName'', ''narrator'', ''narrators''] of
        None \<Rightarrow> None
      | Some n \<Rightarrow>
     (case getMetadataValue d [''seriesName'', ''series''] of
        None \<Rightarrow> None
      | Some s \<Rightarrow>
          Some (orElse a ''Unknown Author'', orElse t ''Unknown Title'',
                orElse n ''Unknown Narrator'', orElse s [])))))"

section \<open>Path Planner\<close>

record formatConfig =
  folderFormat :: string
  fileFormat :: string

record fileMove =
  oldName :: string
  newName :: string
  oldPath :: string
  ftype :: string

text \<open>
  One entry of \<^verbatim>\<open>plannedMoves\<close>. Its two display fields (\<^verbatim>\<open>oldPath\<close> and \<^verbatim>\<open>newPath\<close>, the
  directories relative to the library) are read by no code of the server and are left out.
\<close>

record plan =
  title :: string
  author :: string
  movePlan :: "fileMove list"
  bookDir :: string
  targetDir :: string

text \<open>
  The statistics of a scan. The byte and duration totals (a sum of \<^verbatim>\<open>stat\<close> sizes and a
  floating-point sum) take no part in planning and are left out.
\<close>

record stats =
  books :: nat
  authors :: "string set"
  narrators :: "string set"
  series :: "string set"
  standaloneCount :: nat

text \<open>
  The series block of the scan handler: from the raw series field to \<open>seriesTitle\<close>,
  \<open>bookNumber\<close> and the updated statistics.
\<close>

definition normalizeSeries :: "string \<Rightarrow> stats \<Rightarrow> string \<times> string \<times> stats" where
  "normalizeSeries seriesField st =
     (if seriesField \<noteq> [] then
        (if js_includes seriesField CHR ''#'' then
           (let parts = js_split CHR ''#'' seriesField;
                seriesTitle = cleanFilename (parts ! 0);
                rawNum = js_trim (parts ! 1);
                bookNumber =
                  (if js_includes rawNum CHR ''.'' then
                     (let nParts = js_split CHR ''.'' rawNum in
                      padStart 2 CHR ''0'' (nParts ! 0) @ ''.'' @ (nParts ! 1))
                   else if \<not> js_isNaN rawNum then padStart 2 CHR ''0'' rawNum
                   else rawNum)
            in (seriesTitle, bookNumber, st\<lparr>series := insert seriesTitle (series st)\<rparr>))
         else
           (let seriesTitle = cleanFilename seriesField
            in (seriesTitle, [], st\<lparr>series := insert seriesTitle (series st)\<rparr>)))
      else ([], [], st\<lparr>standaloneCount := standaloneCount st + 1\<rparr>))"

definition audioExtensions :: "string list" where
  "audioExtensions = [''.mp3'', ''.m4b'', ''.m4a'', ''.flac'', ''.ogg'', ''.opus'', ''.aac'']"

definition isAudio :: "string \<Rightarrow> bool" where
  "isAudio f \<longleftrightarrow> toLowerCase (path_extname f) \<in> set audioExtensions"

text \<open>\<^verbatim>\<open>audioFiles\<close>: the audio files of the directory listing, sorted.\<close>

definition sortAudio :: "string list \<Rightarrow> string list" where
  "sortAudio allFiles = sortBy compareNames (filter isAudio allFiles)"

text \<open>The track suffix of the file at index \<open>i\<close> (from 0) among \<open>numAudio\<close> audio files.\<close>

definition trackSuffix :: "nat \<Rightarrow> nat \<Rightarrow> string" where
  "trackSuffix numAudio i =
     (if numAudio > 1 then '' - '' @ padStart 2 CHR ''0'' (showNat (i + 1)) else [])"

definition audioNewName ::
  "formatConfig \<Rightarrow> string \<Rightarrow> string \<Rightarrow> string \<Rightarrow> string \<Rightarrow> nat \<Rightarrow> string \<Rightarrow> nat \<Rightarrow> string" where
  "audioNewName cfg cleanAuthor seriesTitle bookNumber cleanTitle numAudio audioFile i =
     (if fileFormat cfg = ''full-details'' then
        (let nameParts = [cleanAuthor]
               @ (if seriesTitle \<noteq> [] then [js_trim (seriesTitle @ '' '' @ bookNumber)] else [])
               @ [cleanTitle];
             baseName = joinWith '' - '' (filter (\<lambda>p. p \<noteq> []) nameParts);
             ext = path_extname audioFile
         in baseName @ trackSuffix numAudio i @ ext)
      else if fileFormat cfg = ''title-only'' then
        (let ext = path_extname audioFile
         in cleanTitle @ trackSuffix numAudio i @ ext)
      else audioFile)"

text \<open>The \<^verbatim>\<open>forEach\<close> over the audio files, \<open>i\<close> being the index of the next one.\<close>

fun audioMoves ::
  "formatConfig \<Rightarrow> string \<Rightarrow> string \<Rightarrow> string \<Rightarrow> string \<Rightarrow> string \<Rightarrow> nat \<Rightarrow> nat \<Rightarrow> string list
   \<Rightarrow> fileMove list" where
  "audioMoves cfg cleanAuthor seriesTitle bookNumber cleanTitle dir numAudio i [] = []"
| "audioMoves cfg cleanAuthor seriesTitle bookNumber cleanTitle dir numAudio i (audioFile # rest) =
     \<lparr>oldName = audioFile,
      newName = cleanFilename
        (audioNewName cfg cleanAuthor seriesTitle bookNumber cleanTitle numAudio audioFile i),
      oldPath = path_join [dir, audioFile],
      ftype = ''audio''\<rparr>
     # audioMoves cfg cleanAuthor seriesTitle bookNumber cleanTitle dir numAudio (i + 1) rest"

definition otherMoves :: "string \<Rightarrow> string list \<Rightarrow> string list \<Rightarrow> fileMove list" where
  "otherMoves dir audioFiles allFiles =
     map (\<lambda>f. \<lparr>oldName = f, newName = f, oldPath = path_join [dir, f], ftype = ''other''\<rparr>)
         (filter (\<lambda>f. f \<notin> set audioFiles) allFiles)"

definition targetPathOf ::
  "string \<Rightarrow> formatConfig \<Rightarrow> string \<Rightarrow> string \<Rightarrow> string \<Rightarrow> string \<Rightarrow> string" where
  "targetPathOf libraryPath cfg cleanAuthor seriesTitle bookNumber cleanTitle =
     (if folderFormat cfg = ''author-series-book'' \<and> seriesTitle \<noteq> [] then
        (let folderLabel = (if bookNumber \<noteq> [] then bookNumber @ '' '' @ cleanTitle else cleanTitle)
         in path_join [libraryPath, cleanAuthor, seriesTitle, folderLabel])
      else path_join [libraryPath, cleanAuthor, cleanTitle])"

text \<open>
  The plan of one item, from its normalized metadata, its directory \<open>dir\<close> and the listing
  \<open>allFiles\<close> of that directory.
\<close>

definition buildPlan ::
  "string \<Rightarrow> formatConfig \<Rightarrow> string \<Rightarrow> string \<Rightarrow> string \<Rightarrow> string \<Rightarrow> string \<Rightarrow> string list \<Rightarrow> plan" where
  "buildPlan libraryPath cfg authorName bookTitle seriesTitle bookNumber dir allFiles =
     (let cleanAuthor = cleanFilename authorName;
          cleanTitle = cleanFilename bookTitle;
          targetPath = targetPathOf libraryPath cfg cleanAuthor seriesTitle bookNumber cleanTitle;
          audioFiles = sortAudio allFiles;
          numAudio = length audioFiles
      in \<lparr>title = bookTitle,
          author = authorName,
          movePlan =
            audioMoves cfg cleanAuthor seriesTitle bookNumber cleanTitle dir numAudio 0 audioFiles
            @ otherMoves dir audioFiles allFiles,
          bookDir = dir,
          targetDir = targetPath\<rparr>)"

definition hasChanges :: "plan \<Rightarrow> bool" where
  "hasChanges p \<longleftrightarrow>
     bookDir p \<noteq> targetDir p \<or> list_ex (\<lambda>m. oldName m \<noteq> newName m) (movePlan p)"

section \<open>File system\<close>

text \<open>
  The library on disk is a tree. A regular file carries its size and what \<^verbatim>\<open>JSON.parse\<close>
  makes of its content (\<open>None\<close> when the content is not JSON, as for an audio file); a
  directory carries its entries in the order \<^verbatim>\<open>readdir\<close> lists them. Permissions, links
  and concurrent changes are outside the model: a call fails only for the reasons written
  here. A path is resolved from the root, \<^verbatim>\<open>.\<close> and \<^verbatim>\<open>..\<close> lexically, as \<^verbatim>\<open>path.normalize\<close>
  resolves them. The kernel looks up every directory that a path steps through, also one
  that a \<^verbatim>\<open>..\<close> leaves again: on a path with a \<^verbatim>\<open>..\<close> after a missing directory or after
  a regular file, and on a path with a separator after a regular file, the kernel fails
  where the lexical resolution goes on. The paths that \<^verbatim>\<open>path.join\<close> returns have no \<^verbatim>\<open>..\<close>
  after their first name.
\<close>

datatype node = File nat "json option" | Dir "(string \<times> node) list"

definition resolve :: "string \<Rightarrow> string list" where
  "resolve p = normalizeSegs False [] (js_split CHR ''/'' p)"

fun lookupNode :: "node \<Rightarrow> string list \<Rightarrow> node option" where
  "lookupNode n [] = Some n"
| "lookupNode (File sz j) (c # cs) = None"
| "lookupNode (Dir es) (c # cs) =
     (case map_of es c of None \<Rightarrow> None | Some ch \<Rightarrow> lookupNode ch cs)"

text \<open>Replace the entry called \<open>c\<close> (or add it at the end), and remove it.\<close>

fun updateEntry :: "string \<Rightarrow> node \<Rightarrow> (string \<times> node) list \<Rightarrow> (string \<times> node) list" where
  "updateEntry c n [] = [(c, n)]"
| "updateEntry c n (e # es) = (if fst e = c then (c, n) # es else e # updateEntry c n es)"

fun removeEntry :: "string \<Rightarrow> (string \<times> node) list \<Rightarrow> (string \<times> node) list" where
  "removeEntry c [] = []"
| "removeEntry c (e # es) = (if fst e = c then es else e # removeEntry c es)"

text \<open>
  \<open>putNode t p n\<close> stores \<open>n\<close> at path \<open>p\<close> (whose parent must be a directory);
  \<open>removeNode t p\<close> unlinks what is at \<open>p\<close>.
\<close>

fun putNode :: "node \<Rightarrow> string list \<Rightarrow> node \<Rightarrow> node option" where
  "putNode t [] n = None"
| "putNode (File sz j) (c # cs) n = None"
| "putNode (Dir es) [c] n = Some (Dir (updateEntry c n es))"
| "putNode (Dir es) (c # d # cs) n =
     (case map_of es c of
        None \<Rightarrow> None
      | Some ch \<Rightarrow>
          (case putNode ch (d # cs) n of
             None \<Rightarrow> None
           | Some ch' \<Rightarrow> Some (Dir (updateEntry c ch' es))))"

fun removeNode :: "node \<Rightarrow> string list \<Rightarrow> node option" where
  "removeNode t [] = None"
| "removeNode (File sz j) (c # cs) = None"
| "removeNode (Dir es) [c] = (if map_of es c = None then None else Some (Dir (removeEntry c es)))"
| "removeNode (Dir es) (c # d # cs) =
     (case map_of es c of
        None \<Rightarrow> None
      | Some ch \<Rightarrow>
          (case removeNode ch (d # cs) of
             None \<Rightarrow> None
           | Some ch' \<Rightarrow> Some (Dir (updateEntry c ch' es))))"

text \<open>
  \<^verbatim>\<open>fs.mkdir(p, {recursive: true})\<close>: succeeds when \<open>p\<close> is a directory already, creates
  the missing directories otherwise, and fails when a component of \<open>p\<close> is a regular file.
\<close>

fun mkChain :: "string list \<Rightarrow> node" where
  "mkChain [] = Dir []"
| "mkChain (c # cs) = Dir [(c, mkChain cs)]"

fun mkdirp :: "node \<Rightarrow> string list \<Rightarrow> node option" where
  "mkdirp (File sz j) cs = None"
| "mkdirp (Dir es) [] = Some (Dir es)"
| "mkdirp (Dir es) (c # cs) =
     (case map_of es c of
        None \<Rightarrow> Some (Dir (es @ [(c, mkChain cs)]))
      | Some ch \<Rightarrow>
          (case mkdirp ch cs of
             None \<Rightarrow> None
           | Some ch' \<Rightarrow> Some (Dir (updateEntry c ch' es))))"

text \<open>
  \<^verbatim>\<open>fs.rename(old, new)\<close> as POSIX \<^verbatim>\<open>rename\<close>: \<open>old\<close> must exist; the same path is a
  no-op; the root cannot be moved, nor a directory into itself; an existing \<open>new\<close> is
  replaced when both are regular files or when a directory replaces an empty directory, and
  is an error otherwise; the parent of \<open>new\<close> must be a directory. A replaced file is lost.
\<close>

definition isPrefix :: "string list \<Rightarrow> string list \<Rightarrow> bool" where
  "isPrefix a b \<longleftrightarrow> take (length a) b = a"

definition moveNode :: "node \<Rightarrow> string list \<Rightarrow> string list \<Rightarrow> node \<Rightarrow> node option" where
  "moveNode t old new src =
     (case removeNode t old of None \<Rightarrow> None | Some t1 \<Rightarrow> putNode t1 new src)"

definition renameNode :: "node \<Rightarrow> string list \<Rightarrow> string list \<Rightarrow> node option" where
  "renameNode t old new =
     (case lookupNode t old of
        None \<Rightarrow> None
      | Some src \<Rightarrow>
          if old = new then Some t
          else if old = [] \<or> new = [] \<or> isPrefix old new then None
          else (case lookupNode t new of
                  None \<Rightarrow> moveNode t old new src
                | Some tgt \<Rightarrow>
                    (case (src, tgt) of
                       (File a b, File c d) \<Rightarrow> moveNode t old new src
                     | (Dir es, Dir []) \<Rightarrow> moveNode t old new src
                     | _ \<Rightarrow> None)))"

text \<open>The calls of \<^verbatim>\<open>fs.promises\<close> the server makes; \<open>None\<close> is a rejected promise.\<close>

definition fs_access :: "node \<Rightarrow> string \<Rightarrow> bool" where
  "fs_access t p \<longleftrightarrow> lookupNode t (resolve p) \<noteq> None"

definition fs_readdir :: "node \<Rightarrow> string \<Rightarrow> string list option" where
  "fs_readdir t p =
     (case lookupNode t (resolve p) of Some (Dir es) \<Rightarrow> Some (map fst es) | _ \<Rightarrow> None)"

text \<open>\<^verbatim>\<open>JSON.parse(await fs.readFile(p, 'utf-8'))\<close>; \<open>None\<close> when either step throws.\<close>

definition fs_readJson :: "node \<Rightarrow> string \<Rightarrow> json option" where
  "fs_readJson t p = (case lookupNode t (resolve p) of Some (File sz j) \<Rightarrow> j | _ \<Rightarrow> None)"

definition fs_mkdir :: "node \<Rightarrow> string \<Rightarrow> node option" where
  "fs_mkdir t p = mkdirp t (resolve p)"

definition fs_rename :: "node \<Rightarrow> string \<Rightarrow> string \<Rightarrow> node option" where
  "fs_rename t old new = renameNode t (resolve old) (resolve new)"

definition fs_rmdir :: "node \<Rightarrow> string \<Rightarrow> node option" where
  "fs_rmdir t p =
     (case lookupNode t (resolve p) of
        Some (Dir []) \<Rightarrow> removeNode t (resolve p)
      | _ \<Rightarrow> None)"

text \<open>The regular files of a tree, as the multiset of their (size, content) pairs.\<close>

fun filesOf :: "node \<Rightarrow> (nat \<times> json option) multiset" where
  "filesOf (File sz j) = {#(sz, j)#}"
| "filesOf (Dir es) = (\<Sum>e \<in># mset es. filesOf (snd e))"

section \<open>Library Scanner\<close>

text \<open>
  \<^verbatim>\<open>findMetadataFiles(dir)\<close>: the walk lists \<open>dir\<close>, descends into each directory entry and
  collects each regular file called \<^verbatim>\<open>metadata.json\<close>, in listing order. The argument is
  the tree at \<open>dir\<close>; the walk of the server reads it again from the path it built, which
  is the same tree for the entry names a file system has (no \<^verbatim>\<open>/\<close>, not \<^verbatim>\<open>.\<close> or \<^verbatim>\<open>..\<close>).
  A listing that fails is caught and adds nothing.
\<close>

fun findMetadataFiles :: "string \<Rightarrow> node \<Rightarrow> string list" where
  "findMetadataFiles dir (File sz j) = []"
| "findMetadataFiles dir (Dir es) =
     concat (map (\<lambda>e.
       (let fullPath = path_join [dir, fst e] in
        case snd e of
          Dir es' \<Rightarrow> findMetadataFiles fullPath (snd e)
        | File sz j \<Rightarrow> if fst e = ''metadata.json'' then [fullPath] else [])) es)"

text \<open>
  One turn of the scan loop, for the metadata file \<open>metaPath\<close>. Whatever throws inside the
  \<^verbatim>\<open>try\<close> (an unreadable or malformed file, a record that is \<^verbatim>\<open>null\<close>, a directory
  that cannot be listed) ends the turn without a plan; the statistics keep what was added
  before.
\<close>

definition processItem ::
  "node \<Rightarrow> string \<Rightarrow> formatConfig \<Rightarrow> string \<Rightarrow> stats \<Rightarrow> stats \<times> plan option" where
  "processItem t libraryPath cfg metaPath st =
     (case fs_readJson t metaPath of
        None \<Rightarrow> (st, None)
      | Some d \<Rightarrow>
          (let st1 = st\<lparr>books := books st + 1\<rparr> in
           case extractFields d of
             None \<Rightarrow> (st1, None)
           | Some (authorName, bookTitle, narrator, seriesField) \<Rightarrow>
               (let st2 = st1\<lparr>authors := insert authorName (authors st1)\<rparr>;
                    st3 = (if narrator \<noteq> ''Unknown Narrator''
                           then st2\<lparr>narrators := insert narrator (narrators st2)\<rparr> else st2);
                    (seriesTitle, bookNumber, st4) = normalizeSeries seriesField st3;
                    dir = path_dirname metaPath
                in case fs_readdir t dir of
                     None \<Rightarrow> (st4, None)
                   | Some allFiles \<Rightarrow>
                       (let p = buildPlan libraryPath cfg authorName bookTitle seriesTitle
                                  bookNumber dir allFiles
                        in (st4, if hasChanges p then Some p else None)))))"

fun scanLoop ::
  "node \<Rightarrow> string \<Rightarrow> formatConfig \<Rightarrow> string list \<Rightarrow> stats \<times> plan list \<Rightarrow> stats \<times> plan list" where
  "scanLoop t libraryPath cfg [] acc = acc"
| "scanLoop t libraryPath cfg (metaPath # rest) (st, plannedMoves) =
     (case processItem t libraryPath cfg metaPath st of
        (st', None) \<Rightarrow> scanLoop t libraryPath cfg rest (st', plannedMoves)
      | (st', Some p) \<Rightarrow> scanLoop t libraryPath cfg rest (st', plannedMoves @ [p]))"

text \<open>
  The handler of \<^verbatim>\<open>POST /api/scan\<close>: status 400 without a library path, status 500 when the
  path cannot be accessed, the statistics and the plans otherwise.
\<close>

datatype scanError = PathRequired | ScanFailed

definition emptyStats :: stats where
  "emptyStats = \<lparr>books = 0, authors = {}, narrators = {}, series = {}, standaloneCount = 0\<rparr>"

definition metadataFilesOf :: "node \<Rightarrow> string \<Rightarrow> string list" where
  "metadataFilesOf t libraryPath =
     (case lookupNode t (resolve libraryPath) of
        None \<Rightarrow> []
      | Some root \<Rightarrow> findMetadataFiles libraryPath root)"

definition scan :: "node \<Rightarrow> string \<Rightarrow> formatConfig \<Rightarrow> scanError + stats \<times> plan list" where
  "scan t libraryPath cfg =
     (if libraryPath = [] then Inl PathRequired
      else if \<not> fs_access t libraryPath then Inl ScanFailed
      else Inr (scanLoop t libraryPath cfg (metadataFilesOf t libraryPath) (emptyStats, [])))"

section \<open>Move Executor\<close>

record results =
  applied :: nat
  errors :: nat
  collisions :: "string list"

text \<open>The loop over \<^verbatim>\<open>book.movePlan\<close>, on the file system and the running result.\<close>

fun moveFiles :: "string \<Rightarrow> fileMove list \<Rightarrow> node \<times> results \<Rightarrow> node \<times> results" where
  "moveFiles tdir [] acc = acc"
| "moveFiles tdir (fileMove # rest) (t, res) =
     (let newPath = path_join [tdir, newName fileMove] in
      if oldPath fileMove = newPath then moveFiles tdir rest (t, res)
      else if fs_access t newPath then
        moveFiles tdir rest (t, res\<lparr>collisions := collisions res @ [newName fileMove]\<rparr>)
      else (case fs_rename t (oldPath fileMove) newPath of
              None \<Rightarrow> moveFiles tdir rest (t, res\<lparr>errors := errors res + 1\<rparr>)
            | Some t' \<Rightarrow> moveFiles tdir rest (t', res)))"

text \<open>The removal of the old directory: listed first, removed when the listing is empty.\<close>

definition removeIfEmpty :: "node \<Rightarrow> string \<Rightarrow> node" where
  "removeIfEmpty t dir =
     (case fs_readdir t dir of
        None \<Rightarrow> t
      | Some remaining \<Rightarrow>
          if length remaining = 0 then (case fs_rmdir t dir of None \<Rightarrow> t | Some t' \<Rightarrow> t')
          else t)"

text \<open>One turn of the loop over \<^verbatim>\<open>plannedMoves\<close>.\<close>

definition executeBook :: "plan \<Rightarrow> node \<times> results \<Rightarrow> node \<times> results" where
  "executeBook book acc =
     (case acc of (t, res) \<Rightarrow>
        (case fs_mkdir t (targetDir book) of
           None \<Rightarrow> (t, res\<lparr>errors := errors res + 1\<rparr>)
         | Some t1 \<Rightarrow>
             (case moveFiles (targetDir book) (movePlan book) (t1, res) of
                (t2, res2) \<Rightarrow>
                  (removeIfEmpty t2 (bookDir book), res2\<lparr>applied := applied res2 + 1\<rparr>))))"

text \<open>The handler of \<^verbatim>\<open>POST /api/execute\<close>, for a request that carries a list of plans.\<close>

definition execute :: "node \<Rightarrow> plan list \<Rightarrow> node \<times> results" where
  "execute t plannedMoves =
     fold executeBook plannedMoves (t, \<lparr>applied = 0, errors = 0, collisions = []\<rparr>)"

section \<open>Reference definitions and example data\<close>

text \<open>
  The plan the planner computes for the item of \<open>metaPath\<close>, whether or not it changes
  anything; \<open>None\<close> when the item is skipped. It follows \<open>processItem\<close> without the
  statistics and without the final test.
\<close>

definition itemPlan :: "node \<Rightarrow> string \<Rightarrow> formatConfig \<Rightarrow> string \<Rightarrow> plan option" where
  "itemPlan t libraryPath cfg metaPath =
     (case fs_readJson t metaPath of
        None \<Rightarrow> None
      | Some d \<Rightarrow>
          (case extractFields d of
             None \<Rightarrow> None
           | Some (authorName, bookTitle, narrator, seriesField) \<Rightarrow>
               (let (seriesTitle, bookNumber, st) = normalizeSeries seriesField emptyStats;
                    dir = path_dirname metaPath
                in case fs_readdir t dir of
                     None \<Rightarrow> None
                   | Some allFiles \<Rightarrow>
                       Some (buildPlan libraryPath cfg authorName bookTitle seriesTitle
                               bookNumber dir allFiles))))"

text \<open>
  A small library under \<^verbatim>\<open>/lib\<close>: an item in \<^verbatim>\<open>x\<close> that belongs in \<^verbatim>\<open>A/T\<close>, a directory
  \<^verbatim>\<open>A/T\<close> that already holds an audio file but no metadata, and an item in \<^verbatim>\<open>B/U\<close> that
  is in place already.
\<close>

definition exampleLibrary :: node where
  "exampleLibrary =
     Dir [(''lib'', Dir [
       (''x'', Dir [
          (''metadata.json'',
             File 10 (Some (JObj [(''title'', JStr ''T''), (''authorName'', JStr ''A'')]))),
          (''a.mp3'', File 100 None)]),
       (''A'', Dir [(''T'', Dir [(''b.mp3'', File 200 None)])]),
       (''B'', Dir [(''U'', Dir [
          (''metadata.json'',
             File 12 (Some (JObj [(''title'', JStr ''U''), (''authorName'', JStr ''B'')]))),
          (''U.mp3'', File 300 None)])])])]"

definition titleOnly :: formatConfig where
  "titleOnly = \<lparr>folderFormat = ''author-book'', fileFormat = ''title-only''\<rparr>"

definition examplePlans :: "plan list" where
  "examplePlans =
     [\<lparr>title = ''T'', author = ''A'',
       movePlan =
         [\<lparr>oldName = ''a.mp3'', newName = ''T.mp3'',
           oldPath = ''/lib/x/a.mp3'', ftype = ''audio''\<rparr>,
          \<lparr>oldName = ''metadata.json'', newName = ''metadata.json'',
           oldPath = ''/lib/x/metadata.json'', ftype = ''other''\<rparr>],
       bookDir = ''/lib/x'', targetDir = ''/lib/A/T''\<rparr>]"

definition exampleStats :: stats where
  "exampleStats =
     \<lparr>books = 2, authors = {''A'', ''B''}, narrators = {}, series = {}, standaloneCount = 2\<rparr>"

text \<open>
  The empty result an execute call starts from; the file system each plan of a call starts
  in; whether the target directory of a plan could be created in that state; and the
  number of file moves of a plan that failed.
\<close>

definition noResults :: results where
  "noResults = \<lparr>applied = 0, errors = 0, collisions = []\<rparr>"

text \<open>
  The accounting of an execute call, from the file system calls alone. A rename is
  attempted for a move whose target path differs from its source path and is not occupied;
  a move fails when its attempted rename is rejected; a move leaves the file system as the
  accepted rename leaves it, and unchanged otherwise. A plan leaves the file system
  unchanged when its target directory cannot be created, and otherwise as its moves and the
  removal of its old directory leave it.
\<close>

definition renameAttempted :: "node \<Rightarrow> string \<Rightarrow> fileMove \<Rightarrow> bool" where
  "renameAttempted t tdir m \<longleftrightarrow>
     oldPath m \<noteq> path_join [tdir, newName m] \<and> \<not> fs_access t (path_join [tdir, newName m])"

definition renameFails :: "node \<Rightarrow> string \<Rightarrow> fileMove \<Rightarrow> bool" where
  "renameFails t tdir m \<longleftrightarrow>
     renameAttempted t tdir m \<and> fs_rename t (oldPath m) (path_join [tdir, newName m]) = None"

definition afterMove :: "string \<Rightarrow> fileMove \<Rightarrow> node \<Rightarrow> node" where
  "afterMove tdir m t =
     (if renameAttempted t tdir m
      then (case fs_rename t (oldPath m) (path_join [tdir, newName m]) of
              None \<Rightarrow> t
            | Some t' \<Rightarrow> t')
      else t)"

fun failedMoves :: "string \<Rightarrow> fileMove list \<Rightarrow> node \<Rightarrow> nat" where
  "failedMoves tdir [] t = 0"
| "failedMoves tdir (m # rest) t =
     (if renameFails t tdir m then 1 else 0) + failedMoves tdir rest (afterMove tdir m t)"

definition afterBook :: "node \<Rightarrow> plan \<Rightarrow> node" where
  "afterBook t book =
     (case fs_mkdir t (targetDir book) of
        None \<Rightarrow> t
      | Some t1 \<Rightarrow> removeIfEmpty (fold (afterMove (targetDir book)) (movePlan book) t1) (bookDir book))"

fun statesBefore :: "node \<Rightarrow> plan list \<Rightarrow> node list" where
  "statesBefore t [] = []"
| "statesBefore t (book # rest) = t # statesBefore (afterBook t book) rest"

definition dirCreated :: "node \<times> plan \<Rightarrow> bool" where
  "dirCreated sb \<longleftrightarrow> fs_mkdir (fst sb) (targetDir (snd sb)) \<noteq> None"

definition moveErrors :: "node \<Rightarrow> plan \<Rightarrow> nat" where
  "moveErrors t book =
     (case fs_mkdir t (targetDir book) of
        None \<Rightarrow> 0
      | Some t1 \<Rightarrow> failedMoves (targetDir book) (movePlan book) t1)"

text \<open>
  Example plans on the example library: a move onto the existing \<^verbatim>\<open>A/T/b.mp3\<close>, a plan
  whose target directory lies below a regular file, a plan for the root directory, and a
  plan whose first move names a source file that does not exist.
\<close>

definition collidingMove :: fileMove where
  "collidingMove = \<lparr>oldName = ''a.mp3'', newName = ''b.mp3'', oldPath = ''/lib/x/a.mp3'', ftype = ''audio''\<rparr>"

definition metadataMove :: fileMove where
  "metadataMove = \<lparr>oldName = ''metadata.json'', newName = ''metadata.json'',
     oldPath = ''/lib/x/metadata.json'', ftype = ''other''\<rparr>"

definition collidingPlan :: plan where
  "collidingPlan = \<lparr>title = ''T'', author = ''A'', movePlan = [collidingMove],
     bookDir = ''/lib/x'', targetDir = ''/lib/A/T''\<rparr>"

definition blockedPlan :: plan where
  "blockedPlan = \<lparr>title = ''T'', author = ''A'', movePlan = [metadataMove],
     bookDir = ''/lib/x'', targetDir = ''/lib/x/a.mp3/T''\<rparr>"

definition rootPlan :: plan where
  "rootPlan = \<lparr>title = ''T'', author = ''A'', movePlan = [], bookDir = ''/'', targetDir = ''/''\<rparr>"

definition staleMove :: fileMove where
  "staleMove = \<lparr>oldName = ''gone.mp3'', newName = ''T.mp3'', oldPath = ''/lib/x/gone.mp3'', ftype = ''audio''\<rparr>"

definition stalePlan :: plan where
  "stalePlan = \<lparr>title = ''T'', author = ''A'', movePlan = [staleMove, collidingMove],
     bookDir = ''/lib/x'', targetDir = ''/lib/A/T''\<rparr>"

text \<open>
  The series rule as the specification words it, for comparison with \<open>normalizeSeries\<close>:
  split once at the first \<^verbatim>\<open>#\<close>; the text after it, trimmed, is the raw number; a
  dotted-numeric number (digits, a dot, digits) has its integer part padded to width 2, a
  purely numeric one is padded to width 2, anything else is kept.
\<close>

definition dottedNumeric :: "string \<Rightarrow> bool" where
  "dottedNumeric raw \<longleftrightarrow>
     allDigits (takeWhile (\<lambda>c. c \<noteq> CHR ''.'') raw)
     \<and> (case dropWhile (\<lambda>c. c \<noteq> CHR ''.'') raw of [] \<Rightarrow> False | d # f \<Rightarrow> allDigits f)"

definition claimedBookNumber :: "string \<Rightarrow> string" where
  "claimedBookNumber raw =
     (if dottedNumeric raw then
        padStart 2 CHR ''0'' (takeWhile (\<lambda>c. c \<noteq> CHR ''.'') raw) @ dropWhile (\<lambda>c. c \<noteq> CHR ''.'') raw
      else if allDigits raw then padStart 2 CHR ''0'' raw
      else raw)"

definition claimedSeries :: "string \<Rightarrow> string \<times> string" where
  "claimedSeries sf =
     (if js_includes sf CHR ''#'' then
        (cleanFilename (takeWhile (\<lambda>c. c \<noteq> CHR ''#'') sf),
         claimedBookNumber (js_trim (tl (dropWhile (\<lambda>c. c \<noteq> CHR ''#'') sf))))
      else (cleanFilename sf, []))"

text \<open>The two fields \<open>normalizeSeries\<close> computes, without the statistics.\<close>

definition seriesOf :: "string \<Rightarrow> string \<times> string" where
  "seriesOf sf = (fst (normalizeSeries sf emptyStats), fst (snd (normalizeSeries sf emptyStats)))"

text \<open>
  The book number the code derives from the raw number, written with \<open>takeWhile\<close> and
  \<open>dropWhile\<close>: with a dot, the text before the first dot padded to width 2, a dot, and
  the text up to the next dot; without a dot, padded to width 2 when \<^verbatim>\<open>Number\<close> reads the
  raw number as a number (the empty string included), kept otherwise.
\<close>

definition bookNumberOf :: "string \<Rightarrow> string" where
  "bookNumberOf raw =
     (if CHR ''.'' \<in> set raw then
        padStart 2 CHR ''0'' (takeWhile (\<lambda>c. c \<noteq> CHR ''.'') raw) @ ''.''
        @ takeWhile (\<lambda>c. c \<noteq> CHR ''.'') (tl (dropWhile (\<lambda>c. c \<noteq> CHR ''.'') raw))
      else if \<not> js_isNaN raw then padStart 2 CHR ''0'' raw
      else raw)"


text \<open>
  The full-details name as the specification words it: the non-empty parts among the
  author, the trimmed \<open>seriesTitle bookNumber\<close> (when there is a series) and the title,
  joined with \<^verbatim>\<open> - \<close>; then \<^verbatim>\<open> - NN\<close> for the position \<open>i\<close> (from 1) and the extension.
\<close>

definition claimedBaseName :: "string \<Rightarrow> string \<Rightarrow> string \<Rightarrow> string \<Rightarrow> string" where
  "claimedBaseName authorPart seriesTitle bookNumber titlePart =
     joinWith '' - ''
       (filter (\<lambda>p. p \<noteq> [])
          [authorPart,
           (if seriesTitle \<noteq> [] then js_trim (seriesTitle @ '' '' @ bookNumber) else []),
           titlePart])"

definition claimedTrackName :: "string \<Rightarrow> string \<Rightarrow> string \<Rightarrow> string \<Rightarrow> nat \<Rightarrow> string \<Rightarrow> string" where
  "claimedTrackName authorPart seriesTitle bookNumber titlePart i ext =
     claimedBaseName authorPart seriesTitle bookNumber titlePart
     @ '' - '' @ padStart 2 CHR ''0'' (showNat i) @ ext"

text \<open>Example items for the full-details format.\<close>

definition fullDetails :: formatConfig where
  "fullDetails = \<lparr>folderFormat = ''author-series-book'', fileFormat = ''full-details''\<rparr>"

definition mistbornPlan :: plan where
  "mistbornPlan = buildPlan ''/lib'' fullDetails ''Brandon Sanderson'' ''The Final Empire''
     ''Mistborn'' ''01'' ''/lib/x'' [''b.mp3'', ''a.mp3'', ''metadata.json'']"

definition numberedPlan :: plan where
  "numberedPlan = buildPlan ''/lib'' fullDetails ''Brandon Sanderson'' ''The Final Empire''
     ''Mistborn'' ''01'' ''/lib/x'' [''track2.mp3'', ''track10.mp3'', ''track1.mp3'', ''metadata.json'']"

text \<open>
  The library after the plans of the example scan have been executed, and the plans of the
  scan that follows.
\<close>

definition exampleLibraryAfter :: node where
  "exampleLibraryAfter =
     Dir [(''lib'', Dir [
        (''A'', Dir [(''T'', Dir [
           (''b.mp3'', File 200 None),
           (''T.mp3'', File 100 None),
           (''metadata.json'',
              File 10 (Some (JObj [(''title'', JStr ''T''), (''authorName'', JStr ''A'')])))])]),
        (''B'', Dir [(''U'', Dir [
           (''metadata.json'',
              File 12 (Some (JObj [(''title'', JStr ''U''), (''authorName'', JStr ''B'')]))),
           (''U.mp3'', File 300 None)])])])]"

definition rescanPlans :: "plan list" where
  "rescanPlans =
     [\<lparr>title = ''T'', author = ''A'',
       movePlan =
         [\<lparr>oldName = ''b.mp3'', newName = ''T - 01.mp3'',
           oldPath = ''/lib/A/T/b.mp3'', ftype = ''audio''\<rparr>,
          \<lparr>oldName = ''T.mp3'', newName = ''T - 02.mp3'',
           oldPath = ''/lib/A/T/T.mp3'', ftype = ''audio''\<rparr>,
          \<lparr>oldName = ''metadata.json'', newName = ''metadata.json'',
           oldPath = ''/lib/A/T/metadata.json'', ftype = ''other''\<rparr>],
       bookDir = ''/lib/A/T'', targetDir = ''/lib/A/T''\<rparr>]"

text \<open>
  Extensions made of a dot and ASCII letters and digits, as those of the audio formats
  are, and what the name sanitizer leaves of a text that is followed by more text.
\<close>

definition isAlnum :: "char \<Rightarrow> bool" where
  "isAlnum c \<longleftrightarrow>
     (let n = (of_char c :: nat) in
      (48 \<le> n \<and> n \<le> 57) \<or> (65 \<le> n \<and> n \<le> 90) \<or> (97 \<le> n \<and> n \<le> 122))"

definition plainExt :: "string \<Rightarrow> bool" where
  "plainExt ext \<longleftrightarrow> (case ext of [] \<Rightarrow> False | d # e \<Rightarrow> d = CHR ''.'' \<and> e \<noteq> [] \<and> list_all isAlnum e)"

definition stem :: "string \<Rightarrow> string" where
  "stem s = dropWhile isSpace (collapseWs (filter (\<lambda>c. c \<notin> set invalidChars) s))"

text \<open>The key element of one part of a split name.\<close>

definition keyPartOf :: "string \<Rightarrow> keyPart" where
  "keyPartOf part =
     (if js_isNaN part then KStr (toLowerCase part)
      else (case parseInt part of None \<Rightarrow> KNaN | Some n \<Rightarrow> KNum n))"

text \<open>The number of audio moves of a plan.\<close>

definition audioCount :: "plan \<Rightarrow> nat" where
  "audioCount p = length (filter (\<lambda>m. ftype m = ''audio'') (movePlan p))"

text \<open>
  A library whose only item has two audio files, its plan under title-only names, and the
  library after that plan has been executed.
\<close>

definition trackLibrary :: node where
  "trackLibrary =
     Dir [(''lib'', Dir [
       (''x'', Dir [
          (''metadata.json'',
             File 10 (Some (JObj [(''title'', JStr ''T''), (''authorName'', JStr ''A'')]))),
          (''b.mp3'', File 200 None),
          (''a.mp3'', File 100 None)])])]"

definition trackPlan :: plan where
  "trackPlan =
     \<lparr>title = ''T'', author = ''A'',
      movePlan =
        [\<lparr>oldName = ''a.mp3'', newName = ''T - 01.mp3'',
          oldPath = ''/lib/x/a.mp3'', ftype = ''audio''\<rparr>,
         \<lparr>oldName = ''b.mp3'', newName = ''T - 02.mp3'',
          oldPath = ''/lib/x/b.mp3'', ftype = ''audio''\<rparr>,
         \<lparr>oldName = ''metadata.json'', newName = ''metadata.json'',
          oldPath = ''/lib/x/metadata.json'', ftype = ''other''\<rparr>],
      bookDir = ''/lib/x'', targetDir = ''/lib/A/T''\<rparr>"

definition trackLibraryAfter :: node where
  "trackLibraryAfter =
     Dir [(''lib'', Dir [
        (''A'', Dir [(''T'', Dir [
           (''T - 01.mp3'', File 100 None),
           (''T - 02.mp3'', File 200 None),
           (''metadata.json'',
              File 10 (Some (JObj [(''title'', JStr ''T''), (''authorName'', JStr ''A'')])))])])])]"

text \<open>
  A library whose only item has ten audio files, the plan of its scan under title-only
  names, the library after that plan has been executed, and the plan of the scan that
  follows. \<open>planIn dir renames\<close> is the plan that renames the audio files of \<open>dir\<close> as
  listed and keeps the metadata file.
\<close>

definition tenTrackLibrary :: node where
  "tenTrackLibrary =
     Dir [(''lib'', Dir [
       (''x'', Dir [
          (''metadata.json'',
             File 10 (Some (JObj [(''title'', JStr ''T''), (''authorName'', JStr ''A'')]))),
          (''a.mp3'', File 101 None),
          (''b.mp3'', File 102 None),
          (''c.mp3'', File 103 None),
          (''d.mp3'', File 104 None),
          (''e.mp3'', File 105 None),
          (''f.mp3'', File 106 None),
          (''g.mp3'', File 107 None),
          (''h.mp3'', File 108 None),
          (''i.mp3'', File 109 None),
          (''j.mp3'', File 110 None)])])]"

definition tenTrackStats :: stats where
  "tenTrackStats =
     \<lparr>books = 1, authors = {''A''}, narrators = {}, series = {}, standaloneCount = 1\<rparr>"

definition planIn :: "string \<Rightarrow> (string \<times> string) list \<Rightarrow> plan" where
  "planIn dir renames =
     \<lparr>title = ''T'', author = ''A'',
      movePlan =
        map (\<lambda>(old, new). \<lparr>oldName = old, newName = new, oldPath = dir @ ''/'' @ old,
                             ftype = ''audio''\<rparr>) renames
        @ [\<lparr>oldName = ''metadata.json'', newName = ''metadata.json'',
            oldPath = dir @ ''/metadata.json'', ftype = ''other''\<rparr>],
      bookDir = dir, targetDir = ''/lib/A/T''\<rparr>"

definition tenTrackPlan :: plan where
  "tenTrackPlan =
     planIn ''/lib/x''
            [(''a.mp3'', ''T - 01.mp3''), (''b.mp3'', ''T - 02.mp3''),
             (''c.mp3'', ''T - 03.mp3''), (''d.mp3'', ''T - 04.mp3''),
             (''e.mp3'', ''T - 05.mp3''), (''f.mp3'', ''T - 06.mp3''),
             (''g.mp3'', ''T - 07.mp3''), (''h.mp3'', ''T - 08.mp3''),
             (''i.mp3'', ''T - 09.mp3''), (''j.mp3'', ''T - 10.mp3'')]"

definition tenTrackLibraryAfter :: node where
  "tenTrackLibraryAfter =
     Dir [(''lib'', Dir [
        (''A'', Dir [(''T'', Dir [
           (''T - 01.mp3'', File 101 None),
           (''T - 02.mp3'', File 102 None),
           (''T - 03.mp3'', File 103 None),
           (''T - 04.mp3'', File 104 None),
           (''T - 05.mp3'', File 105 None),
           (''T - 06.mp3'', File 106 None),
           (''T - 07.mp3'', File 107 None),
           (''T - 08.mp3'', File 108 None),
           (''T - 09.mp3'', File 109 None),
           (''T - 10.mp3'', File 110 None),
           (''metadata.json'',
              File 10 (Some (JObj [(''title'', JStr ''T''), (''authorName'', JStr ''A'')])))])])])]"

definition tenTrackRescan :: plan where
  "tenTrackRescan =
     planIn ''/lib/A/T''
            [(''T - 01.mp3'', ''T - 01.mp3''), (''T - 10.mp3'', ''T - 02.mp3''),
             (''T - 02.mp3'', ''T - 03.mp3''), (''T - 03.mp3'', ''T - 04.mp3''),
             (''T - 04.mp3'', ''T - 05.mp3''), (''T - 05.mp3'', ''T - 06.mp3''),
             (''T - 06.mp3'', ''T - 07.mp3''), (''T - 07.mp3'', ''T - 08.mp3''),
             (''T - 08.mp3'', ''T - 09.mp3''), (''T - 09.mp3'', ''T - 10.mp3'')]"

section \<open>Properties of the Name Sanitizer\<close>

lemma fold_removeAllChar: "fold removeAllChar cs s = filter (\<lambda>x. x \<notin> set cs) s"
  by (induction cs arbitrary: s) (auto simp: removeAllChar_def intro: filter_cong)

lemma space_not_invalid: "CHR '' '' \<notin> set invalidChars"
  by (simp add: invalidChars_def)

lemma isSpace_space: "isSpace (CHR '' '')"
  by (simp add: isSpace_def)

lemma collapseWs_hd: "\<not> isSpace c \<Longrightarrow> collapseWs (c # cs) = c # collapseWs cs"
  by simp

lemma collapseWs_after_drop:
  "(case collapseWs (dropWhile isSpace cs) of [] \<Rightarrow> True | d # _ \<Rightarrow> \<not> isSpace d)"
proof (cases "dropWhile isSpace cs")
  case Nil
  then show ?thesis by (simp del: dropWhile_eq_Nil_conv)
next
  case (Cons d ds)
  then have "\<not> isSpace d" using hd_dropWhile [of isSpace cs] by auto
  with Cons show ?thesis by simp
qed

lemma singleSpaced_collapseWs: "singleSpaced (collapseWs s)"
proof (induction s rule: collapseWs.induct)
  case 1
  then show ?case by simp
next
  case (2 c cs)
  show ?case
  proof (cases "isSpace c")
    case True
    with 2 collapseWs_after_drop [of cs] show ?thesis by simp
  next
    case False
    with 2 show ?thesis by simp
  qed
qed

lemma set_collapseWs: "set (collapseWs s) \<subseteq> insert (CHR '' '') (set s)"
proof (induction s rule: collapseWs.induct)
  case 1
  then show ?case by simp
next
  case (2 c cs)
  have "set (dropWhile isSpace cs) \<subseteq> set cs" by (rule set_dropWhileD [THEN subsetI])
  with 2 show ?case by (cases "isSpace c") auto
qed

lemma singleSpaced_append: "singleSpaced (a @ b) \<Longrightarrow> singleSpaced a \<and> singleSpaced b"
proof (induction a)
  case Nil
  then show ?case by simp
next
  case (Cons c a')
  then show ?case by (cases a') (simp_all split: if_splits)
qed

lemma singleSpaced_dropWhile: "singleSpaced s \<Longrightarrow> singleSpaced (dropWhile P s)"
  using singleSpaced_append [of "takeWhile P s" "dropWhile P s"] by simp

lemma rev_dropWhile_rev_prefix: "rev (dropWhile P (rev s)) @ rev (takeWhile P (rev s)) = s"
proof -
  have "rev (takeWhile P (rev s) @ dropWhile P (rev s)) = s" by simp
  then show ?thesis by (simp only: rev_append)
qed

lemma singleSpaced_trim: "singleSpaced s \<Longrightarrow> singleSpaced (js_trim s)"
proof -
  assume a: "singleSpaced s"
  let ?u = "dropWhile isSpace s"
  from a have "singleSpaced ?u" by (rule singleSpaced_dropWhile)
  then have "singleSpaced (rev (dropWhile isSpace (rev ?u)) @ rev (takeWhile isSpace (rev ?u)))"
    by (simp only: rev_dropWhile_rev_prefix)
  then show ?thesis unfolding js_trim_def by (blast dest: singleSpaced_append)
qed

lemma set_trim: "set (js_trim s) \<subseteq> set s"
  unfolding js_trim_def by (auto dest!: set_dropWhileD)

lemma dropWhile_hd_id: "xs \<noteq> [] \<Longrightarrow> \<not> P (hd xs) \<Longrightarrow> dropWhile P xs = xs"
  by (cases xs) auto

lemma trim_no_edge: "\<not> edgeSpace (js_trim s)"
proof (cases "js_trim s")
  case Nil
  then show ?thesis by (simp add: edgeSpace_def)
next
  case (Cons c cs)
  let ?u = "dropWhile isSpace s"
  let ?r = "dropWhile isSpace (rev ?u)"
  have t: "js_trim s = rev ?r" by (simp add: js_trim_def)
  with Cons have rne: "?r \<noteq> []" by auto
  then have l: "\<not> isSpace (last (js_trim s))"
    using hd_dropWhile [of isSpace "rev ?u"] by (simp add: t last_rev)
  have une: "?u \<noteq> []"
  proof
    assume "?u = []"
    then have "?r = []" by (simp only: rev.simps dropWhile.simps)
    with rne show False by simp
  qed
  have "hd (rev ?r) = hd (rev ?r @ rev (takeWhile isSpace (rev ?u)))"
    using rne by (simp only: hd_append2 rev_is_Nil_conv not_False_eq_True if_True)
  also have "\<dots> = hd ?u" by (simp only: rev_dropWhile_rev_prefix)
  finally have "hd (rev ?r) = hd ?u" .
  then have h: "\<not> isSpace (hd (js_trim s))"
    using hd_dropWhile [of isSpace s] une by (simp add: t)
  from h l Cons show ?thesis by (simp add: edgeSpace_def)
qed

lemma collapseWs_id: "singleSpaced s \<Longrightarrow> collapseWs s = s"
proof (induction s rule: collapseWs.induct)
  case 1
  then show ?case by simp
next
  case (2 c cs)
  then show ?case by (cases cs) (auto split: if_splits)
qed

lemma trim_id: "\<not> edgeSpace s \<Longrightarrow> js_trim s = s"
proof (cases s)
  case Nil
  then show ?thesis by (simp add: js_trim_def)
next
  case (Cons c cs)
  assume "\<not> edgeSpace s"
  with Cons have h: "\<not> isSpace c" and l: "\<not> isSpace (last s)" by (auto simp: edgeSpace_def)
  from h Cons have 1: "dropWhile isSpace s = s" by simp
  have "hd (rev s) = last s" by (simp add: hd_rev)
  with l Cons have 2: "dropWhile isSpace (rev s) = rev s"
    by (intro dropWhile_hd_id) auto
  show ?thesis by (simp add: js_trim_def 1 2)
qed

lemma cleanFilename_eq: "cleanFilename x = js_trim (collapseWs (filter (\<lambda>c. c \<notin> set invalidChars) x))"
  by (simp add: cleanFilename_def fold_removeAllChar js_trim_def)

lemma cleanFilename_no_invalid: "set (cleanFilename x) \<inter> set invalidChars = {}"
proof -
  let ?y = "filter (\<lambda>c. c \<notin> set invalidChars) x"
  have "set (cleanFilename x) \<subseteq> insert (CHR '' '') (set ?y)"
    unfolding cleanFilename_eq using set_trim set_collapseWs by blast
  then show ?thesis using space_not_invalid by auto
qed

lemma cleanFilename_singleSpaced: "singleSpaced (cleanFilename x)"
  unfolding cleanFilename_eq by (intro singleSpaced_trim singleSpaced_collapseWs)

lemma cleanFilename_no_edge: "\<not> edgeSpace (cleanFilename x)"
  unfolding cleanFilename_eq by (rule trim_no_edge)

lemma cleanFilename_fixed:
  assumes "set s \<inter> set invalidChars = {}" "singleSpaced s" "\<not> edgeSpace s"
  shows "cleanFilename s = s"
proof -
  have "filter (\<lambda>c. c \<notin> set invalidChars) s = s"
    using assms(1) by (intro filter_True) auto
  then show ?thesis
    unfolding cleanFilename_eq using assms(2,3) by (simp add: collapseWs_id trim_id)
qed

lemma cleanFilename_idem: "cleanFilename (cleanFilename x) = cleanFilename x"
  by (intro cleanFilename_fixed cleanFilename_no_invalid cleanFilename_singleSpaced
      cleanFilename_no_edge)

text \<open>
  Claim C7. For every string \<open>x\<close>, \<open>cleanFilename x\<close> contains none of the characters
  \<^verbatim>\<open>< > : " / \ | ? *\<close>; its white space is single spaces only (every run has been
  collapsed); it neither starts nor ends with white space; and sanitizing it again changes
  nothing.
\<close>

theorem sanitize_properties:
  "set (cleanFilename x) \<inter> set invalidChars = {}
   \<and> singleSpaced (cleanFilename x)
   \<and> \<not> edgeSpace (cleanFilename x)
   \<and> cleanFilename (cleanFilename x) = cleanFilename x"
  by (intro conjI cleanFilename_no_invalid cleanFilename_singleSpaced cleanFilename_no_edge
      cleanFilename_idem)

theorem sanitize_properties_witness:
  "cleanFilename (''  a<b  >c ? d'' @ [CHR 0x09, CHR 0x5C]) = ''ab c d''
   \<and> set ''ab c d'' \<inter> set invalidChars = {}
   \<and> singleSpaced ''ab c d''
   \<and> \<not> edgeSpace ''ab c d''
   \<and> cleanFilename ''ab c d'' = ''ab c d''"
proof -
  have e: "cleanFilename (''  a<b  >c ? d'' @ [CHR 0x09, CHR 0x5C]) = ''ab c d''"
    by code_simp
  show ?thesis
    using sanitize_properties [of "''  a<b  >c ? d'' @ [CHR 0x09, CHR 0x5C]"]
    by (simp only: e simp_thms)
qed

section \<open>Properties of the Natural Sort Comparator\<close>

text \<open>
  Claim C1. The comparator is said to compare the keys element by element, digit runs as
  integers, so that \<^verbatim>\<open>track2.mp3\<close>, \<^verbatim>\<open>track10.mp3\<close>, \<^verbatim>\<open>track1.mp3\<close> sort as 1, 2, 10. The
  scan handler compares the two key arrays with \<^verbatim>\<open><\<close>, which compares their comma-joined
  strings: \<^verbatim>\<open>track,10,.mp,3,NaN\<close> is below \<^verbatim>\<open>track,2,.mp,3,NaN\<close>, and the list sorts as
  1, 10, 2.
\<close>

theorem audio_sort_example:
  "sortAudio [''track2.mp3'', ''track10.mp3'', ''track1.mp3'']
     = [''track1.mp3'', ''track10.mp3'', ''track2.mp3'']
   \<and> compareNames ''track10.mp3'' ''track2.mp3'' = - 1
   \<and> keyToString (naturalSortKey ''track10.mp3'') = ''track,10,.mp,3,NaN''
   \<and> keyToString (naturalSortKey ''track2.mp3'') = ''track,2,.mp,3,NaN''"
  by code_simp

section \<open>Properties of the Library Scanner\<close>

lemma normalizeSeries_fields:
  assumes "normalizeSeries sf st = (s, b, x)" and "normalizeSeries sf st' = (s', b', x')"
  shows "s = s' \<and> b = b'"
  using assms by (auto simp: normalizeSeries_def Let_def split: if_splits)

lemma processItem_plan:
  "snd (processItem t lib cfg m st) =
     (case itemPlan t lib cfg m of
        None \<Rightarrow> None
      | Some p \<Rightarrow> if hasChanges p then Some p else None)"
  unfolding processItem_def itemPlan_def Let_def
  by (auto split: option.splits prod.splits dest: normalizeSeries_fields)

lemma scanLoop_plans:
  "snd (scanLoop t lib cfg ms (st, acc)) =
     acc @ filter hasChanges (List.map_filter (itemPlan t lib cfg) ms)"
proof (induction ms arbitrary: st acc)
  case Nil
  then show ?case by (simp add: List.map_filter_simps)
next
  case (Cons m ms)
  obtain st' po where p: "processItem t lib cfg m st = (st', po)"
    by (cases "processItem t lib cfg m st") auto
  from processItem_plan [of t lib cfg m st] p
  have po: "po = (case itemPlan t lib cfg m of
                    None \<Rightarrow> None
                  | Some p \<Rightarrow> if hasChanges p then Some p else None)"
    by simp
  show ?case
  proof (cases po)
    case None
    with p po Cons.IH [of st' acc] show ?thesis
      by (auto simp: List.map_filter_simps split: option.splits if_splits)
  next
    case (Some q)
    with p po Cons.IH [of st' "acc @ [q]"] show ?thesis
      by (auto simp: List.map_filter_simps split: option.splits if_splits)
  qed
qed

lemma hasChanges_iff:
  "hasChanges p \<longleftrightarrow>
     bookDir p \<noteq> targetDir p \<or> (\<exists>m \<in> set (movePlan p). oldName m \<noteq> newName m)"
  by (simp add: hasChanges_def list_ex_iff)

lemma example_scan:
  "scan exampleLibrary ''/lib'' titleOnly = Inr (exampleStats, examplePlans)"
  by code_simp

text \<open>
  Claim C6. The plans a scan returns are, in scan order, exactly the plans of those scanned
  items whose directory differs from the target directory or one of whose file moves
  changes the name: an item is reported if and only if it has such a change, and an item
  already in place is not reported.
\<close>

theorem scan_reports_changed_items:
  assumes "scan t lib cfg = Inr (st, plans)"
  shows "plans =
           filter (\<lambda>p. bookDir p \<noteq> targetDir p
                        \<or> (\<exists>m \<in> set (movePlan p). oldName m \<noteq> newName m))
             (List.map_filter (itemPlan t lib cfg) (metadataFilesOf t lib))"
proof -
  from assms have "plans = snd (scanLoop t lib cfg (metadataFilesOf t lib) (emptyStats, []))"
    by (auto simp: scan_def split: if_splits)
  then show ?thesis by (simp add: scanLoop_plans hasChanges_iff [abs_def])
qed

theorem scan_reports_changed_items_witness:
  "scan exampleLibrary ''/lib'' titleOnly = Inr (exampleStats, examplePlans)
   \<and> List.map_filter (itemPlan exampleLibrary ''/lib'' titleOnly)
        (metadataFilesOf exampleLibrary ''/lib'')
      = examplePlans @
        [\<lparr>title = ''U'', author = ''B'',
          movePlan =
            [\<lparr>oldName = ''U.mp3'', newName = ''U.mp3'',
              oldPath = ''/lib/B/U/U.mp3'', ftype = ''audio''\<rparr>,
             \<lparr>oldName = ''metadata.json'', newName = ''metadata.json'',
              oldPath = ''/lib/B/U/metadata.json'', ftype = ''other''\<rparr>],
          bookDir = ''/lib/B/U'', targetDir = ''/lib/B/U''\<rparr>]
   \<and> examplePlans =
        filter (\<lambda>p. bookDir p \<noteq> targetDir p
                     \<or> (\<exists>m \<in> set (movePlan p). oldName m \<noteq> newName m))
          (List.map_filter (itemPlan exampleLibrary ''/lib'' titleOnly)
             (metadataFilesOf exampleLibrary ''/lib''))"
proof -
  have "List.map_filter (itemPlan exampleLibrary ''/lib'' titleOnly)
          (metadataFilesOf exampleLibrary ''/lib'')
        = examplePlans @
          [\<lparr>title = ''U'', author = ''B'',
            movePlan =
              [\<lparr>oldName = ''U.mp3'', newName = ''U.mp3'',
                oldPath = ''/lib/B/U/U.mp3'', ftype = ''audio''\<rparr>,
               \<lparr>oldName = ''metadata.json'', newName = ''metadata.json'',
                oldPath = ''/lib/B/U/metadata.json'', ftype = ''other''\<rparr>],
            bookDir = ''/lib/B/U'', targetDir = ''/lib/B/U''\<rparr>]"
    by code_simp
  with example_scan scan_reports_changed_items [OF example_scan] show ?thesis by blast
qed

section \<open>Properties of the Move Executor\<close>

subsection \<open>Collisions\<close>





subsection \<open>Counting\<close>

lemma moveFiles_fs: "fst (moveFiles tdir ms (t, r)) = fst (moveFiles tdir ms (t, r'))"
proof (induction ms arbitrary: t r r')
  case Nil
  then show ?case by simp
next
  case (Cons m ms)
  show ?case
    using Cons.IH [of t r r'] Cons.IH [of t "r\<lparr>collisions := collisions r @ [newName m]\<rparr>" "r'\<lparr>collisions := collisions r' @ [newName m]\<rparr>"]
      Cons.IH [of t "r\<lparr>errors := errors r + 1\<rparr>" "r'\<lparr>errors := errors r' + 1\<rparr>"]
      Cons.IH [of _ r r']
    by (simp add: Let_def split: option.splits)
qed

lemma moveFiles_applied: "applied (snd (moveFiles tdir ms (t, r))) = applied r"
  by (induction ms arbitrary: t r) (simp_all add: Let_def split: option.splits)

lemma executeBook_alt:
  "executeBook book (t, r) =
     (case fs_mkdir t (targetDir book) of
        None \<Rightarrow> (t, r\<lparr>errors := errors r + 1\<rparr>)
      | Some t1 \<Rightarrow>
          (removeIfEmpty (fst (moveFiles (targetDir book) (movePlan book) (t1, r))) (bookDir book),
           (snd (moveFiles (targetDir book) (movePlan book) (t1, r)))
             \<lparr>applied := applied (snd (moveFiles (targetDir book) (movePlan book) (t1, r))) + 1\<rparr>))"
  by (simp add: executeBook_def case_prod_beta split: option.splits)

lemma executeBook_fs: "fst (executeBook book (t, r)) = fst (executeBook book (t, noResults))"
proof (cases "fs_mkdir t (targetDir book)")
  case None
  then show ?thesis by (simp add: executeBook_alt)
next
  case (Some t1)
  have "fst (moveFiles (targetDir book) (movePlan book) (t1, r))
          = fst (moveFiles (targetDir book) (movePlan book) (t1, noResults))"
    by (rule moveFiles_fs)
  with Some show ?thesis by (simp add: executeBook_alt)
qed

lemma moveFiles_state: "fst (moveFiles tdir ms (t, r)) = fold (afterMove tdir) ms t"
  by (induction ms arbitrary: t r)
     (simp_all add: Let_def afterMove_def renameAttempted_def split: option.splits)

lemma moveFiles_errors:
  "errors (snd (moveFiles tdir ms (t, r))) = errors r + failedMoves tdir ms t"
  by (induction ms arbitrary: t r)
     (simp_all add: Let_def afterMove_def renameFails_def renameAttempted_def split: option.splits)

lemma executeBook_state: "fst (executeBook book (t, r)) = afterBook t book"
  by (simp add: executeBook_alt afterBook_def moveFiles_state split: option.splits)

lemma executeBook_applied:
  "applied (snd (executeBook book (t, r)))
     = applied r + (if dirCreated (t, book) then 1 else 0)"
proof (cases "fs_mkdir t (targetDir book)")
  case None
  then show ?thesis by (simp add: executeBook_alt dirCreated_def)
next
  case (Some t1)
  have "applied (snd (moveFiles (targetDir book) (movePlan book) (t1, r))) = applied r"
    by (rule moveFiles_applied)
  with Some show ?thesis by (simp add: executeBook_alt dirCreated_def)
qed

lemma executeBook_errors:
  "errors (snd (executeBook book (t, r)))
     = errors r + (if dirCreated (t, book) then moveErrors t book else 1)"
  by (simp add: executeBook_alt dirCreated_def moveErrors_def moveFiles_errors split: option.splits)

lemma fold_executeBook_counts:
  "applied (snd (fold executeBook plans (t, r)))
     = applied r + length (filter dirCreated (zip (statesBefore t plans) plans))
   \<and> errors (snd (fold executeBook plans (t, r)))
     = errors r + length (filter (\<lambda>sb. \<not> dirCreated sb) (zip (statesBefore t plans) plans))
       + (\<Sum>sb \<leftarrow> filter dirCreated (zip (statesBefore t plans) plans). moveErrors (fst sb) (snd sb))"
proof (induction plans arbitrary: t r)
  case Nil
  then show ?case by simp
next
  case (Cons b bs)
  obtain t' r' where e: "executeBook b (t, r) = (t', r')" by (cases "executeBook b (t, r)") auto
  have t': "afterBook t b = t'" using executeBook_state [of b t r] e by simp
  have a: "applied r' = applied r + (if dirCreated (t, b) then 1 else 0)"
    using executeBook_applied [of b t r] e by simp
  have er: "errors r' = errors r + (if dirCreated (t, b) then moveErrors t b else 1)"
    using executeBook_errors [of b t r] e by simp
  show ?case using Cons.IH [of t' r'] by (simp add: e t' a er)
qed

lemma moveFiles_step:
  "(renameFails t tdir m \<longrightarrow>
      moveFiles tdir (m # rest) (t, r) = moveFiles tdir rest (t, r\<lparr>errors := errors r + 1\<rparr>))
   \<and> (\<not> renameFails t tdir m \<longrightarrow> errors (snd (moveFiles tdir [m] (t, r))) = errors r)"
  by (auto simp: renameFails_def renameAttempted_def Let_def split: option.splits)

lemma example_counts:
  "zip (statesBefore exampleLibrary [stalePlan, blockedPlan]) [stalePlan, blockedPlan]
     = [(exampleLibrary, stalePlan), (exampleLibrary, blockedPlan)]
   \<and> dirCreated (exampleLibrary, stalePlan)
   \<and> \<not> dirCreated (exampleLibrary, blockedPlan)
   \<and> renameFails exampleLibrary (targetDir stalePlan) staleMove
   \<and> afterMove (targetDir stalePlan) staleMove exampleLibrary = exampleLibrary
   \<and> \<not> renameAttempted exampleLibrary (targetDir stalePlan) collidingMove
   \<and> fs_mkdir exampleLibrary (targetDir stalePlan) = Some exampleLibrary
   \<and> failedMoves (targetDir stalePlan) (movePlan stalePlan) exampleLibrary = 1
   \<and> moveErrors exampleLibrary stalePlan = 1"
  by code_simp

text \<open>
  Claim C10. The \<open>applied\<close> count of an execute call is the number of plans whose target
  directory could be created in the state the plan started in: such a plan counts once
  whatever became of its file moves (each collision and each failed rename is caught inside
  the loop, which therefore always runs to its end). The \<open>errors\<close> count is the number of
  plans whose target directory could not be created plus, for the others, the number of
  their moves whose rename was attempted and rejected. The same holds of one plan and of
  one run of the move loop, and the file system goes through the states that the accepted
  renames and the removal of emptied directories produce. At a move whose rename is
  rejected the loop counts one error and goes on with the remaining moves; at any other
  move it counts none.
\<close>

theorem applied_counts_plans:
  "applied (snd (execute t plans))
     = length (filter dirCreated (zip (statesBefore t plans) plans))
   \<and> errors (snd (execute t plans))
     = length (filter (\<lambda>sb. \<not> dirCreated sb) (zip (statesBefore t plans) plans))
       + (\<Sum>sb \<leftarrow> filter dirCreated (zip (statesBefore t plans) plans). moveErrors (fst sb) (snd sb))
   \<and> applied (snd (executeBook book (t, r)))
     = applied r + (if dirCreated (t, book) then 1 else 0)
   \<and> errors (snd (executeBook book (t, r)))
     = errors r + (if dirCreated (t, book) then moveErrors t book else 1)
   \<and> errors (snd (moveFiles tdir moves (t, r))) = errors r + failedMoves tdir moves t
   \<and> fst (moveFiles tdir moves (t, r)) = fold (afterMove tdir) moves t
   \<and> fst (executeBook book (t, r)) = afterBook t book
   \<and> (renameFails t tdir m \<longrightarrow>
        moveFiles tdir (m # rest) (t, r) = moveFiles tdir rest (t, r\<lparr>errors := errors r + 1\<rparr>))
   \<and> (\<not> renameFails t tdir m \<longrightarrow> errors (snd (moveFiles tdir [m] (t, r))) = errors r)"
proof -
  have "execute t plans = fold executeBook plans (t, noResults)"
    by (simp add: execute_def noResults_def)
  moreover have "applied noResults = 0" "errors noResults = 0" by (simp_all add: noResults_def)
  ultimately show ?thesis
    using fold_executeBook_counts [of plans t noResults] executeBook_applied [of book t r]
      executeBook_errors [of book t r] moveFiles_errors [of tdir moves t r]
      moveFiles_state [of tdir moves t r] executeBook_state [of book t r]
      moveFiles_step [of t tdir m rest r]
    by simp
qed

theorem applied_counts_plans_witness:
  "applied (snd (execute exampleLibrary [stalePlan, blockedPlan])) = 1
   \<and> errors (snd (execute exampleLibrary [stalePlan, blockedPlan])) = 2
   \<and> collisions (snd (execute exampleLibrary [stalePlan, blockedPlan])) = [''b.mp3'']
   \<and> renameFails exampleLibrary (targetDir stalePlan) staleMove
   \<and> \<not> renameFails exampleLibrary (targetDir stalePlan) collidingMove
   \<and> moveFiles (targetDir stalePlan) [staleMove, collidingMove] (exampleLibrary, noResults)
       = moveFiles (targetDir stalePlan) [collidingMove] (exampleLibrary, noResults\<lparr>errors := 1\<rparr>)
   \<and> errors (snd (moveFiles (targetDir stalePlan) [collidingMove] (exampleLibrary, noResults))) = 0
   \<and> errors (snd (moveFiles (targetDir stalePlan) (movePlan stalePlan) (exampleLibrary, noResults))) = 1"
proof -
  have c: "collisions (snd (execute exampleLibrary [stalePlan, blockedPlan])) = [''b.mp3'']"
    by code_simp
  have z: "errors noResults = 0" by (simp add: noResults_def)
  have n: "\<not> renameFails exampleLibrary (targetDir stalePlan) collidingMove"
    using example_counts by (simp add: renameFails_def)
  note a = applied_counts_plans [of exampleLibrary "[stalePlan, blockedPlan]" stalePlan noResults
      "targetDir stalePlan" "movePlan stalePlan" staleMove "[collidingMove]"]
  note b = applied_counts_plans [of exampleLibrary "[stalePlan, blockedPlan]" stalePlan noResults
      "targetDir stalePlan" "movePlan stalePlan" collidingMove "[]"]
  from a b example_counts c z n show ?thesis by simp
qed

subsection \<open>Files are moved, never deleted\<close>

lemma filesOf_Cons: "filesOf (Dir (e # es)) = filesOf (snd e) + filesOf (Dir es)"
  by simp

lemma filesOf_append: "filesOf (Dir (es @ fs)) = filesOf (Dir es) + filesOf (Dir fs)"
  by simp

lemma map_of_updateEntry_other: "d \<noteq> c \<Longrightarrow> map_of (updateEntry c n es) d = map_of es d"
  by (induction es) auto

lemma map_of_removeEntry_other: "d \<noteq> c \<Longrightarrow> map_of (removeEntry c es) d = map_of es d"
  by (induction es) auto

lemma filesOf_updateEntry_present:
  "map_of es c = Some ch \<Longrightarrow>
     filesOf (Dir (updateEntry c n es)) + filesOf ch = filesOf (Dir es) + filesOf n"
  by (induction es) (auto split: if_splits)

lemma filesOf_updateEntry_absent:
  "map_of es c = None \<Longrightarrow> filesOf (Dir (updateEntry c n es)) = filesOf (Dir es) + filesOf n"
  by (induction es) (auto split: if_splits)

lemma filesOf_removeEntry:
  "map_of es c = Some ch \<Longrightarrow> filesOf (Dir (removeEntry c es)) + filesOf ch = filesOf (Dir es)"
  by (induction es) (auto split: if_splits)

lemma filesOf_mkChain: "filesOf (mkChain cs) = {#}"
  by (induction cs) auto

lemma filesOf_mkdirp: "mkdirp t p = Some t' \<Longrightarrow> filesOf t' = filesOf t"
proof (induction t p arbitrary: t' rule: mkdirp.induct)
  case (1 sz j cs)
  then show ?case by simp
next
  case (2 es)
  then show ?case by simp
next
  case (3 es c cs)
  show ?case
  proof (cases "map_of es c")
    case None
    with 3 show ?thesis by (auto simp: filesOf_mkChain)
  next
    case (Some ch)
    with 3 obtain ch' where m: "mkdirp ch cs = Some ch'" and t': "t' = Dir (updateEntry c ch' es)"
      by (auto split: option.splits)
    from 3 Some m have "filesOf ch' = filesOf ch" by simp
    with filesOf_updateEntry_present [OF Some, of ch'] t' show ?thesis by simp
  qed
qed

lemma filesOf_removeNode:
  "removeNode t p = Some t' \<Longrightarrow> lookupNode t p = Some src \<Longrightarrow> filesOf t' + filesOf src = filesOf t"
proof (induction t p arbitrary: t' rule: removeNode.induct)
  case (1 t)
  then show ?case by simp
next
  case (2 sz j c cs)
  then show ?case by simp
next
  case (3 es c)
  then have m: "map_of es c = Some src" and t': "t' = Dir (removeEntry c es)"
    by (auto split: if_splits option.splits)
  from filesOf_removeEntry [OF m] t' show ?case by simp
next
  case (4 es c d cs)
  from 4(2) obtain ch ch' where ch: "map_of es c = Some ch"
    and r: "removeNode ch (d # cs) = Some ch'" and t': "t' = Dir (updateEntry c ch' es)"
    by (auto split: option.splits)
  from 4(3) ch have l: "lookupNode ch (d # cs) = Some src" by simp
  from 4(1) [OF ch r l] have i: "filesOf ch = filesOf ch' + filesOf src" by simp
  have a: "filesOf (Dir (updateEntry c ch' es)) + filesOf ch = filesOf (Dir es) + filesOf ch'"
    by (rule filesOf_updateEntry_present [OF ch])
  have "(filesOf t' + filesOf src) + filesOf ch' = filesOf (Dir es) + filesOf ch'"
    unfolding t' a [symmetric] i by (simp only: ac_simps)
  then show ?case by (simp only: add_right_cancel)
qed

lemma filesOf_putNode:
  "putNode t p n = Some t' \<Longrightarrow> lookupNode t p = None \<Longrightarrow> filesOf t' = filesOf t + filesOf n"
proof (induction t p n arbitrary: t' rule: putNode.induct)
  case (1 t n)
  then show ?case by simp
next
  case (2 sz j c cs n)
  then show ?case by simp
next
  case (3 es c n)
  then have m: "map_of es c = None" and t': "t' = Dir (updateEntry c n es)"
    by (auto split: option.splits)
  from filesOf_updateEntry_absent [OF m, of n] t' show ?case by simp
next
  case (4 es c d cs n)
  from 4(2) obtain ch ch' where ch: "map_of es c = Some ch"
    and r: "putNode ch (d # cs) n = Some ch'" and t': "t' = Dir (updateEntry c ch' es)"
    by (auto split: option.splits)
  from 4(3) ch have l: "lookupNode ch (d # cs) = None" by simp
  from 4(1) [OF ch r l] have i: "filesOf ch' = filesOf ch + filesOf n" .
  have a: "filesOf (Dir (updateEntry c ch' es)) + filesOf ch = filesOf (Dir es) + filesOf ch'"
    by (rule filesOf_updateEntry_present [OF ch])
  have "filesOf t' + filesOf ch = (filesOf (Dir es) + filesOf n) + filesOf ch"
    unfolding t' a i by (simp only: ac_simps)
  then show ?case by (simp only: add_right_cancel)
qed

lemma lookup_after_remove:
  "removeNode t old = Some t1 \<Longrightarrow> \<not> isPrefix old new \<Longrightarrow> lookupNode t new = None
     \<Longrightarrow> lookupNode t1 new = None"
proof (induction t old arbitrary: t1 new rule: removeNode.induct)
  case (1 t)
  then show ?case by simp
next
  case (2 sz j c cs)
  then show ?case by simp
next
  case (3 es c)
  from 3(3) obtain e new' where n: "new = e # new'" by (cases new) auto
  with 3(2) have "e \<noteq> c" by (auto simp: isPrefix_def)
  with 3 n show ?case by (auto split: if_splits simp: map_of_removeEntry_other)
next
  case (4 es c d cs)
  from 4(4) obtain e new' where n: "new = e # new'" by (cases new) auto
  from 4(2) obtain ch ch' where ch: "map_of es c = Some ch"
    and r: "removeNode ch (d # cs) = Some ch'" and t1: "t1 = Dir (updateEntry c ch' es)"
    by (auto split: option.splits)
  show ?case
  proof (cases "e = c")
    case False
    with 4(4) n t1 show ?thesis by (simp add: map_of_updateEntry_other)
  next
    case True
    with 4(3) n have np: "\<not> isPrefix (d # cs) new'" by (simp add: isPrefix_def)
    from 4(4) n True ch have "lookupNode ch new' = None" by simp
    from 4(1) [OF ch r np this] have "lookupNode ch' new' = None" .
    moreover have "map_of (updateEntry c ch' es) c = Some ch'" by (induction es) auto
    ultimately show ?thesis using n True t1 by simp
  qed
qed

lemma filesOf_renameNode:
  assumes "renameNode t old new = Some t'" and "lookupNode t new = None"
  shows "filesOf t' = filesOf t"
proof -
  from assms obtain src where src: "lookupNode t old = Some src"
    by (auto simp: renameNode_def split: option.splits)
  show ?thesis
  proof (cases "old = new")
    case True
    with assms src show ?thesis by (simp add: renameNode_def)
  next
    case False
    with assms src have np: "\<not> isPrefix old new" and mv: "moveNode t old new src = Some t'"
      by (auto simp: renameNode_def split: if_splits)
    from mv obtain t1 where r: "removeNode t old = Some t1" and p: "putNode t1 new src = Some t'"
      by (auto simp: moveNode_def split: option.splits)
    from filesOf_removeNode [OF r src] have 1: "filesOf t1 + filesOf src = filesOf t" .
    from lookup_after_remove [OF r np assms(2)] have "lookupNode t1 new = None" .
    from filesOf_putNode [OF p this] 1 show ?thesis by simp
  qed
qed

lemma filesOf_fs_rmdir: "fs_rmdir t p = Some t' \<Longrightarrow> filesOf t' = filesOf t"
proof -
  assume a: "fs_rmdir t p = Some t'"
  then have l: "lookupNode t (resolve p) = Some (Dir [])" and r: "removeNode t (resolve p) = Some t'"
    by (auto simp: fs_rmdir_def split: option.splits node.splits list.splits)
  from filesOf_removeNode [OF r l] show ?thesis by simp
qed

lemma filesOf_removeIfEmpty: "filesOf (removeIfEmpty t d) = filesOf t"
  by (auto simp: removeIfEmpty_def filesOf_fs_rmdir split: option.splits)

lemma filesOf_moveFiles: "filesOf (fst (moveFiles tdir ms (t, r))) = filesOf t"
proof (induction ms arbitrary: t r)
  case Nil
  then show ?case by simp
next
  case (Cons m ms)
  let ?new = "path_join [tdir, newName m]"
  show ?case
  proof (cases "oldPath m = ?new \<or> fs_access t ?new")
    case True
    then show ?thesis by (auto simp: Let_def Cons.IH)
  next
    case False
    then have free: "lookupNode t (resolve ?new) = None" by (simp add: fs_access_def)
    show ?thesis
    proof (cases "fs_rename t (oldPath m) ?new")
      case None
      with False show ?thesis by (simp add: Let_def Cons.IH)
    next
      case (Some t')
      then have "filesOf t' = filesOf t"
        unfolding fs_rename_def using free by (rule filesOf_renameNode)
      with False Some show ?thesis by (simp add: Let_def Cons.IH)
    qed
  qed
qed

lemma filesOf_executeBook: "filesOf (fst (executeBook book (t, r))) = filesOf t"
proof (cases "fs_mkdir t (targetDir book)")
  case None
  then show ?thesis by (simp add: executeBook_alt)
next
  case (Some t1)
  then have "filesOf t1 = filesOf t" by (simp add: fs_mkdir_def filesOf_mkdirp)
  with Some show ?thesis
    by (simp add: executeBook_alt filesOf_removeIfEmpty filesOf_moveFiles)
qed

lemma filesOf_fold_executeBook: "filesOf (fst (fold executeBook plans (t, r))) = filesOf t"
proof (induction plans arbitrary: t r)
  case Nil
  then show ?case by simp
next
  case (Cons b bs)
  obtain t' r' where e: "executeBook b (t, r) = (t', r')" by (cases "executeBook b (t, r)") auto
  with filesOf_executeBook [of b t r] have "filesOf t' = filesOf t" by simp
  with Cons.IH [of t' r'] e show ?case by simp
qed

lemma removeIfEmpty_cases:
  "removeIfEmpty t d = t \<or> (fs_readdir t d = Some [] \<and> fs_rmdir t d = Some (removeIfEmpty t d))"
  by (auto simp: removeIfEmpty_def split: option.splits)

lemma removeIfEmpty_nonempty: "fs_readdir t d = Some (x # xs) \<Longrightarrow> removeIfEmpty t d = t"
  by (simp add: removeIfEmpty_def)

lemma example_removal:
  "fs_readdir exampleLibrary ''/lib/x'' = Some [''metadata.json'', ''a.mp3'']
   \<and> fs_mkdir (Dir []) (targetDir rootPlan) = Some (Dir [])
   \<and> fs_readdir (Dir []) ''/'' = Some []
   \<and> fs_rmdir (Dir []) ''/'' = None
   \<and> executeBook rootPlan (Dir [], noResults) = (Dir [], noResults\<lparr>applied := 1\<rparr>)
   \<and> moveFiles (targetDir rootPlan) (movePlan rootPlan) (Dir [], noResults) = (Dir [], noResults)"
  by code_simp

lemma example_execute:
  "execute exampleLibrary examplePlans =
     (Dir [(''lib'', Dir [
        (''A'', Dir [(''T'', Dir [
           (''b.mp3'', File 200 None),
           (''T.mp3'', File 100 None),
           (''metadata.json'',
              File 10 (Some (JObj [(''title'', JStr ''T''), (''authorName'', JStr ''A'')])))])]),
        (''B'', Dir [(''U'', Dir [
           (''metadata.json'',
              File 12 (Some (JObj [(''title'', JStr ''U''), (''authorName'', JStr ''B'')]))),
           (''U.mp3'', File 300 None)])])])],
      \<lparr>applied = 1, errors = 0, collisions = []\<rparr>)"
  by code_simp

text \<open>
  Claim C3. An execute call leaves the regular files of the file system as they were, as a
  multiset of sizes and contents: files are renamed, none is deleted (a rename is issued
  only when nothing exists at its target). The removal step either changes nothing or finds
  the listing of the directory empty and removes that directory; a directory whose listing
  has an entry stays. Once the target directory exists the plan counts as applied and the
  errors are those of the move loop alone, whatever the removal step did.
\<close>

theorem executor_never_deletes_files:
  "filesOf (fst (execute t plans)) = filesOf t
   \<and> (removeIfEmpty u d = u
      \<or> (fs_readdir u d = Some [] \<and> fs_rmdir u d = Some (removeIfEmpty u d)))
   \<and> (fs_readdir u d = Some (x # xs) \<longrightarrow> removeIfEmpty u d = u)
   \<and> (fs_mkdir u (targetDir book) = Some u1 \<longrightarrow>
        applied (snd (executeBook book (u, r))) = applied r + 1
        \<and> errors (snd (executeBook book (u, r)))
            = errors (snd (moveFiles (targetDir book) (movePlan book) (u1, r))))"
proof (intro conjI impI)
  show "filesOf (fst (execute t plans)) = filesOf t"
    by (simp add: execute_def filesOf_fold_executeBook)
  show "removeIfEmpty u d = u
        \<or> (fs_readdir u d = Some [] \<and> fs_rmdir u d = Some (removeIfEmpty u d))"
    by (rule removeIfEmpty_cases)
  show "removeIfEmpty u d = u" if "fs_readdir u d = Some (x # xs)"
    using that by (rule removeIfEmpty_nonempty)
  show "applied (snd (executeBook book (u, r))) = applied r + 1"
    if "fs_mkdir u (targetDir book) = Some u1"
    using that by (simp add: executeBook_alt moveFiles_applied)
  show "errors (snd (executeBook book (u, r)))
          = errors (snd (moveFiles (targetDir book) (movePlan book) (u1, r)))"
    if "fs_mkdir u (targetDir book) = Some u1"
    using that by (simp add: executeBook_alt)
qed

theorem executor_never_deletes_files_witness:
  "filesOf (fst (execute exampleLibrary examplePlans)) = filesOf exampleLibrary
   \<and> fs_readdir exampleLibrary ''/lib/x'' = Some [''metadata.json'', ''a.mp3'']
   \<and> removeIfEmpty exampleLibrary ''/lib/x'' = exampleLibrary
   \<and> fs_mkdir (Dir []) (targetDir rootPlan) = Some (Dir [])
   \<and> fs_rmdir (Dir []) ''/'' = None
   \<and> applied (snd (executeBook rootPlan (Dir [], noResults))) = applied noResults + 1
   \<and> errors (snd (executeBook rootPlan (Dir [], noResults))) = errors noResults"
proof -
  note a = executor_never_deletes_files [of exampleLibrary examplePlans exampleLibrary
      "''/lib/x''" "''metadata.json''" "[''a.mp3'']"]
  note b = executor_never_deletes_files [of exampleLibrary examplePlans "Dir []"
      "''/''" "''metadata.json''" "[]" rootPlan "Dir []" noResults]
  from a b example_removal show ?thesis by simp
qed

section \<open>Properties of the series rule\<close>

lemma js_split_nonempty: "js_split c s \<noteq> []"
  by (induction s) (auto split: list.splits)

lemma js_split_hd: "hd (js_split c s) = takeWhile (\<lambda>x. x \<noteq> c) s"
  by (induction s) (auto split: list.splits simp: js_split_nonempty)

lemma js_split_first: "js_split c s ! 0 = takeWhile (\<lambda>x. x \<noteq> c) s"
  using js_split_hd [of c s] js_split_nonempty [of c s] by (simp add: hd_conv_nth)

lemma js_split_tl:
  "c \<in> set s \<Longrightarrow> tl (js_split c s) = js_split c (tl (dropWhile (\<lambda>x. x \<noteq> c) s))"
  by (induction s) (auto split: list.splits simp: js_split_nonempty)

lemma js_split_second:
  assumes "c \<in> set s"
  shows "js_split c s ! 1 = takeWhile (\<lambda>x. x \<noteq> c) (tl (dropWhile (\<lambda>x. x \<noteq> c) s))"
proof -
  have "js_split c s ! 1 = hd (tl (js_split c s))"
    using js_split_nonempty [of c s] js_split_nonempty [of c "tl (dropWhile (\<lambda>x. x \<noteq> c) s)"]
      js_split_tl [OF assms]
    by (cases "js_split c s") (auto simp: hd_conv_nth)
  then show ?thesis by (simp add: js_split_tl [OF assms] js_split_hd)
qed

lemma normalizeSeries_standalone:
  "standaloneCount (snd (snd (normalizeSeries sf st))) = standaloneCount st + (if sf = [] then 1 else 0)"
  by (simp add: normalizeSeries_def Let_def)

lemma normalizeSeries_title:
  "fst (normalizeSeries sf st) =
     (if sf = [] then [] else cleanFilename (takeWhile (\<lambda>c. c \<noteq> CHR ''#'') sf))"
proof (cases "js_includes sf CHR ''#''")
  case True
  then show ?thesis by (simp add: normalizeSeries_def Let_def js_split_first)
next
  case False
  then have "\<forall>x \<in> set sf. x \<noteq> CHR ''#''" by (auto simp: js_includes_def)
  then have "takeWhile (\<lambda>c. c \<noteq> CHR ''#'') sf = sf" by simp
  then have "cleanFilename (takeWhile (\<lambda>c. c \<noteq> CHR ''#'') sf) = cleanFilename sf"
    by (rule arg_cong)
  with False show ?thesis by (simp add: normalizeSeries_def Let_def)
qed

lemma processItem_standalone:
  assumes "fs_readJson t m = Some d" and "extractFields d = Some (a, bt, n, sf)"
  shows "standaloneCount (fst (processItem t lib cfg m st))
           = standaloneCount st + (if sf = [] then 1 else 0)"
proof -
  let ?st3 = "(if n \<noteq> ''Unknown Narrator''
          then st\<lparr>books := books st + 1, authors := insert a (authors st),
                   narrators := insert n (narrators st)\<rparr>
          else st\<lparr>books := books st + 1, authors := insert a (authors st)\<rparr>)"
  obtain s b st4 where ns: "normalizeSeries sf ?st3 = (s, b, st4)"
    by (cases "normalizeSeries sf ?st3") auto
  have "standaloneCount st4 = standaloneCount ?st3 + (if sf = [] then 1 else 0)"
    using normalizeSeries_standalone [of sf ?st3] ns by simp
  moreover have "standaloneCount ?st3 = standaloneCount st" by simp
  moreover have "fst (processItem t lib cfg m st) = st4"
    using assms ns by (auto simp: processItem_def Let_def split: option.splits)
  ultimately show ?thesis by simp
qed

lemma example_item:
  "fs_readJson exampleLibrary ''/lib/x/metadata.json''
     = Some (JObj [(''title'', JStr ''T''), (''authorName'', JStr ''A'')])
   \<and> extractFields (JObj [(''title'', JStr ''T''), (''authorName'', JStr ''A'')])
     = Some (''A'', ''T'', ''Unknown Narrator'', [])"
  by code_simp

text \<open>
  Claim C9 says that the normalized \<open>seriesTitle\<close> is empty if and only if the item is
  counted as standalone. The series field \<^verbatim>\<open>#1\<close> refutes it: the title before the \<^verbatim>\<open>#\<close> is
  empty, the item is counted under the series with the empty title, and the standalone
  count stays as it was.
\<close>

theorem standalone_counterexample:
  "\<not> (fst (normalizeSeries ''#1'' emptyStats) = []
        \<longleftrightarrow> standaloneCount (snd (snd (normalizeSeries ''#1'' emptyStats)))
              = standaloneCount emptyStats + 1)
   \<and> normalizeSeries ''#1'' emptyStats = ([], ''01'', emptyStats\<lparr>series := {[]}\<rparr>)"
  by code_simp

lemma normalizeSeries_series:
  "sf \<noteq> [] \<Longrightarrow>
     series (snd (snd (normalizeSeries sf st))) = insert (fst (normalizeSeries sf st)) (series st)
     \<and> standaloneCount (snd (snd (normalizeSeries sf st))) = standaloneCount st"
  by (simp add: normalizeSeries_def Let_def)

lemma example_untitled_series:
  "normalizeSeries ''#1'' emptyStats = ([], ''01'', emptyStats\<lparr>series := {[]}\<rparr>)"
  by code_simp

text \<open>
  Claim C9, amended. An item is counted as standalone if and only if its extracted series
  field is empty. Its \<open>seriesTitle\<close> is empty if and only if the series field is empty or
  the text before the first \<^verbatim>\<open>#\<close> sanitizes to the empty string. So a standalone item has
  an empty \<open>seriesTitle\<close>, and an item with an empty \<open>seriesTitle\<close> is standalone unless
  its non-empty series field has no title part left after sanitizing; such an item is
  counted under the series set, as every item with a non-empty series field is.
\<close>

theorem standalone_iff_empty_series_field:
  "(standaloneCount (snd (snd (normalizeSeries sf st))) = standaloneCount st + 1 \<longleftrightarrow> sf = [])
   \<and> (fst (normalizeSeries sf st) = []
        \<longleftrightarrow> sf = [] \<or> cleanFilename (takeWhile (\<lambda>c. c \<noteq> CHR ''#'') sf) = [])
   \<and> (fs_readJson t m = Some d \<longrightarrow> extractFields d = Some (a, bt, n, sf) \<longrightarrow>
        standaloneCount (fst (processItem t lib cfg m st))
          = standaloneCount st + (if sf = [] then 1 else 0))
   \<and> (sf \<noteq> [] \<longrightarrow>
        series (snd (snd (normalizeSeries sf st))) = insert (fst (normalizeSeries sf st)) (series st)
        \<and> standaloneCount (snd (snd (normalizeSeries sf st))) = standaloneCount st)"
  by (simp add: normalizeSeries_standalone normalizeSeries_title processItem_standalone
      normalizeSeries_series)

theorem standalone_iff_empty_series_field_witness:
  "standaloneCount (fst (processItem exampleLibrary ''/lib'' titleOnly ''/lib/x/metadata.json'' emptyStats)) = 1
   \<and> fst (normalizeSeries [] emptyStats) = []
   \<and> standaloneCount (snd (snd (normalizeSeries [] emptyStats))) = 1
   \<and> fst (normalizeSeries ''#1'' emptyStats) = []
   \<and> series (snd (snd (normalizeSeries ''#1'' emptyStats))) = {[]}
   \<and> standaloneCount (snd (snd (normalizeSeries ''#1'' emptyStats))) = 0"
proof -
  have z: "standaloneCount emptyStats = 0" "series emptyStats = {}" by (simp_all add: emptyStats_def)
  note a = standalone_iff_empty_series_field [of "[]" emptyStats exampleLibrary
      "''/lib/x/metadata.json''" "JObj [(''title'', JStr ''T''), (''authorName'', JStr ''A'')]"
      "''A''" "''T''" "''Unknown Narrator''" "''/lib''" titleOnly]
  note b = standalone_iff_empty_series_field [of "''#1''" emptyStats]
  from a b example_item example_untitled_series z show ?thesis by simp
qed

lemma isDigit_not_space: "isDigit c \<Longrightarrow> \<not> isSpace c"
  by (auto simp: isDigit_def isSpace_def)

lemma isDigit_chars:
  assumes "isDigit c"
  shows "c \<noteq> CHR ''.''" "c \<noteq> CHR ''+''" "c \<noteq> CHR ''-''" "\<not> isExpChar c" "c \<noteq> CHR ''#''"
  using assms by (auto simp: isDigit_def isExpChar_def)

lemma allDigits_not_NaN:
  assumes "allDigits raw"
  shows "\<not> js_isNaN raw"
proof -
  from assms obtain c cs where r: "raw = c # cs" and d: "\<forall>x \<in> set raw. isDigit x"
    by (cases raw) (auto simp: allDigits_def list_all_iff)
  have ne: "\<not> edgeSpace raw" using r d by (auto simp: edgeSpace_def isDigit_not_space)
  then have t: "js_trim raw = raw" by (rule trim_id)
  have s: "stripSign raw = raw" using r d by (auto simp: stripSign_def dest: isDigit_chars)
  have e: "takeWhile (\<lambda>c. \<not> isExpChar c) raw = raw" "dropWhile (\<lambda>c. \<not> isExpChar c) raw = []"
    using d by (auto dest: isDigit_chars)
  have m: "takeWhile (\<lambda>c. c \<noteq> CHR ''.'') raw = raw" "dropWhile (\<lambda>c. c \<noteq> CHR ''.'') raw = []"
    using d by (auto dest: isDigit_chars)
  have n: "raw \<noteq> []" using r by simp
  have "isMantissa raw" using d n by (simp add: isMantissa_def m list_all_iff)
  then have "isDecimalLiteral raw" by (simp add: isDecimalLiteral_def e)
  then show ?thesis by (simp add: js_isNaN_def t s)
qed

lemma normalizeSeries_number:
  assumes "js_includes sf CHR ''#''"
  shows "fst (snd (normalizeSeries sf st)) =
           bookNumberOf (js_trim (takeWhile (\<lambda>c. c \<noteq> CHR ''#'')
                                   (tl (dropWhile (\<lambda>c. c \<noteq> CHR ''#'') sf))))"
proof -
  from assms have h: "CHR ''#'' \<in> set sf" and ne: "sf \<noteq> []" by (auto simp: js_includes_def)
  let ?raw = "js_trim (takeWhile (\<lambda>c. c \<noteq> CHR ''#'') (tl (dropWhile (\<lambda>c. c \<noteq> CHR ''#'') sf)))"
  have s1: "\<And>c s. c \<in> set s \<Longrightarrow>
      js_split c s ! Suc 0 = takeWhile (\<lambda>x. x \<noteq> c) (tl (dropWhile (\<lambda>x. x \<noteq> c) s))"
    using js_split_second by simp
  have raw: "js_trim (js_split CHR ''#'' sf ! Suc 0) = ?raw" by (simp only: s1 [OF h])
  show ?thesis
  proof (cases "CHR ''.'' \<in> set ?raw")
    case True
    then show ?thesis
      using assms ne
      by (simp add: normalizeSeries_def Let_def raw js_includes_def bookNumberOf_def
          js_split_first s1 [OF True])
  next
    case False
    then show ?thesis
      using assms ne
      by (simp add: normalizeSeries_def Let_def raw js_includes_def bookNumberOf_def)
  qed
qed

lemma normalizeSeries_no_number:
  assumes "\<not> js_includes sf CHR ''#''"
  shows "fst (snd (normalizeSeries sf st)) = []"
  using assms by (simp add: normalizeSeries_def Let_def)

lemma bookNumberOf_digits: "allDigits raw \<Longrightarrow> bookNumberOf raw = padStart 2 CHR ''0'' raw"
proof -
  assume a: "allDigits raw"
  then have "\<forall>x \<in> set raw. isDigit x" by (simp add: allDigits_def list_all_iff)
  then have "CHR ''.'' \<notin> set raw" by (auto dest: isDigit_chars)
  with allDigits_not_NaN [OF a] show ?thesis by (simp add: bookNumberOf_def)
qed

lemma bookNumberOf_dotted:
  assumes "allDigits i" and "allDigits f"
  shows "bookNumberOf (i @ CHR ''.'' # f) = padStart 2 CHR ''0'' i @ CHR ''.'' # f"
proof -
  from assms have i: "\<forall>x \<in> set i. x \<noteq> CHR ''.''" and f: "\<forall>x \<in> set f. x \<noteq> CHR ''.''"
    by (auto simp: allDigits_def list_all_iff dest: isDigit_chars)
  from i have 1: "takeWhile (\<lambda>c. c \<noteq> CHR ''.'') (i @ CHR ''.'' # f) = i"
    by (simp add: takeWhile_append2 [of i])
  from i have 2: "dropWhile (\<lambda>c. c \<noteq> CHR ''.'') (i @ CHR ''.'' # f) = CHR ''.'' # f"
    by (simp add: dropWhile_append2 [of i])
  from f have 3: "takeWhile (\<lambda>c. c \<noteq> CHR ''.'') f = f" by simp
  show ?thesis by (simp add: bookNumberOf_def 1 2 3)
qed

lemma dottedNumeric_split:
  assumes "dottedNumeric raw"
  obtains i f where "raw = i @ CHR ''.'' # f" "allDigits i" "allDigits f"
proof -
  let ?i = "takeWhile (\<lambda>c. c \<noteq> CHR ''.'') raw"
  let ?d = "dropWhile (\<lambda>c. c \<noteq> CHR ''.'') raw"
  from assms obtain d f where df: "?d = d # f" and f: "allDigits f" and i: "allDigits ?i"
    by (auto simp: dottedNumeric_def split: list.splits)
  have "\<not> d \<noteq> CHR ''.''" using hd_dropWhile [of "\<lambda>c. c \<noteq> CHR ''.''" raw] df by auto
  then have "d = CHR ''.''" by simp
  with df have "raw = ?i @ CHR ''.'' # f" using takeWhile_dropWhile_id [of "\<lambda>c. c \<noteq> CHR ''.''" raw] by simp
  with i f that show thesis by blast
qed

lemma claimedBookNumber_agrees:
  assumes "dottedNumeric raw \<or> allDigits raw \<or> (CHR ''.'' \<notin> set raw \<and> js_isNaN raw)"
  shows "bookNumberOf raw = claimedBookNumber raw"
proof (cases "dottedNumeric raw")
  case True
  then obtain i f where r: "raw = i @ CHR ''.'' # f" and i: "allDigits i" and f: "allDigits f"
    by (rule dottedNumeric_split)
  from i have "\<forall>x \<in> set i. x \<noteq> CHR ''.''" by (auto simp: allDigits_def list_all_iff dest: isDigit_chars)
  then have "takeWhile (\<lambda>c. c \<noteq> CHR ''.'') raw = i" "dropWhile (\<lambda>c. c \<noteq> CHR ''.'') raw = CHR ''.'' # f"
    unfolding r by (simp_all add: takeWhile_append2 [of i] dropWhile_append2 [of i])
  with True bookNumberOf_dotted [OF i f] r show ?thesis by (simp add: claimedBookNumber_def)
next
  case False
  show ?thesis
  proof (cases "allDigits raw")
    case True
    with False bookNumberOf_digits [OF True] show ?thesis by (simp add: claimedBookNumber_def)
  next
    case nd: False
    with False assms have "CHR ''.'' \<notin> set raw" "js_isNaN raw" by auto
    with False nd show ?thesis by (simp add: claimedBookNumber_def bookNumberOf_def)
  qed
qed

lemma example_series:
  "js_includes ''Mistborn #3.5'' CHR ''#''
   \<and> cleanFilename (takeWhile (\<lambda>c. c \<noteq> CHR ''#'') ''Mistborn #3.5'') = ''Mistborn''
   \<and> js_trim (takeWhile (\<lambda>c. c \<noteq> CHR ''#'') (tl (dropWhile (\<lambda>c. c \<noteq> CHR ''#'') ''Mistborn #3.5''))) = ''3.5''
   \<and> bookNumberOf ''3.5'' = ''03.5''
   \<and> dottedNumeric ''3.5''
   \<and> claimedBookNumber ''3.5'' = ''03.5''"
  by code_simp

text \<open>
  Claim C4 says that the field is split once at the first \<^verbatim>\<open>#\<close>, that everything after it
  is the raw number, and that only dotted-numeric and purely numeric numbers are padded.
  The code splits at every \<^verbatim>\<open>#\<close> and every dot and takes the second part, pads the text
  before a dot whatever it is, and pads whatever \<^verbatim>\<open>Number\<close> reads as a number: the four
  fields below come out differently.
\<close>

theorem series_split_counterexample:
  "seriesOf ''A #1 #2'' = (''A'', ''01'') \<and> claimedSeries ''A #1 #2'' = (''A'', ''1 #2'')
   \<and> seriesOf ''A #3.5.1'' = (''A'', ''03.5'') \<and> claimedSeries ''A #3.5.1'' = (''A'', ''3.5.1'')
   \<and> seriesOf ''A #a.b'' = (''A'', ''0a.b'') \<and> claimedSeries ''A #a.b'' = (''A'', ''a.b'')
   \<and> seriesOf ''A #'' = (''A'', ''00'') \<and> claimedSeries ''A #'' = (''A'', [])"
  by code_simp

text \<open>
  Claim C4, amended. For a non-empty series field with a \<^verbatim>\<open>#\<close>, \<open>seriesTitle\<close> is the
  sanitized text before the first \<^verbatim>\<open>#\<close>, the raw number is the trimmed text between the
  first \<^verbatim>\<open>#\<close> and the next one (or the end), and \<open>bookNumber\<close> is \<open>bookNumberOf\<close> of it;
  without a \<^verbatim>\<open>#\<close>, \<open>seriesTitle\<close> is the sanitized field and \<open>bookNumber\<close> is empty. On a
  raw number that is dotted-numeric, purely numeric, or without a dot and not a number,
  \<open>bookNumberOf\<close> is the rule of the specification.
\<close>

theorem series_field_parsing:
  assumes "sf \<noteq> []"
  shows "(js_includes sf CHR ''#'' \<longrightarrow>
            fst (normalizeSeries sf st) = cleanFilename (takeWhile (\<lambda>c. c \<noteq> CHR ''#'') sf)
            \<and> fst (snd (normalizeSeries sf st)) =
                bookNumberOf (js_trim (takeWhile (\<lambda>c. c \<noteq> CHR ''#'')
                                        (tl (dropWhile (\<lambda>c. c \<noteq> CHR ''#'') sf)))))
         \<and> (\<not> js_includes sf CHR ''#'' \<longrightarrow>
            fst (normalizeSeries sf st) = cleanFilename sf \<and> fst (snd (normalizeSeries sf st)) = [])
         \<and> (dottedNumeric raw \<or> allDigits raw \<or> (CHR ''.'' \<notin> set raw \<and> js_isNaN raw) \<longrightarrow>
            bookNumberOf raw = claimedBookNumber raw)"
proof (intro conjI impI)
  assume h: "js_includes sf CHR ''#''"
  show "fst (normalizeSeries sf st) = cleanFilename (takeWhile (\<lambda>c. c \<noteq> CHR ''#'') sf)"
    using assms by (simp add: normalizeSeries_title)
  show "fst (snd (normalizeSeries sf st)) =
          bookNumberOf (js_trim (takeWhile (\<lambda>c. c \<noteq> CHR ''#'')
                                  (tl (dropWhile (\<lambda>c. c \<noteq> CHR ''#'') sf))))"
    using h by (rule normalizeSeries_number)
next
  assume n: "\<not> js_includes sf CHR ''#''"
  show "fst (normalizeSeries sf st) = cleanFilename sf"
    using assms n by (simp add: normalizeSeries_def Let_def)
  show "fst (snd (normalizeSeries sf st)) = []"
    using n by (rule normalizeSeries_no_number)
next
  assume "dottedNumeric raw \<or> allDigits raw \<or> (CHR ''.'' \<notin> set raw \<and> js_isNaN raw)"
  then show "bookNumberOf raw = claimedBookNumber raw" by (rule claimedBookNumber_agrees)
qed

theorem series_field_parsing_witness:
  "fst (normalizeSeries ''Mistborn #3.5'' emptyStats) = ''Mistborn''
   \<and> fst (snd (normalizeSeries ''Mistborn #3.5'' emptyStats)) = ''03.5''
   \<and> bookNumberOf ''3.5'' = claimedBookNumber ''3.5''"
proof -
  have ne: "''Mistborn #3.5'' \<noteq> []" by simp
  from series_field_parsing [OF ne, of emptyStats "''3.5''"] example_series
  show ?thesis by simp
qed

section \<open>Properties of the Path Planner\<close>

lemma audioMoves_length:
  "length (audioMoves cfg ca st bn ct dir n k xs) = length xs"
  by (induction xs arbitrary: k) simp_all

lemma audioMoves_nth:
  "i < length xs \<Longrightarrow>
     audioMoves cfg ca st bn ct dir n k xs ! i =
       \<lparr>oldName = xs ! i,
        newName = cleanFilename (audioNewName cfg ca st bn ct n (xs ! i) (k + i)),
        oldPath = path_join [dir, xs ! i],
        ftype = ''audio''\<rparr>"
proof (induction xs arbitrary: k i)
  case Nil
  then show ?case by simp
next
  case (Cons x xs)
  then show ?case by (cases i) simp_all
qed

lemma buildPlan_audio_nth:
  assumes "i < length (sortAudio allFiles)"
  shows "movePlan (buildPlan lib cfg a bt st bn dir allFiles) ! i =
       \<lparr>oldName = sortAudio allFiles ! i,
        newName = cleanFilename
          (audioNewName cfg (cleanFilename a) st bn (cleanFilename bt)
             (length (sortAudio allFiles)) (sortAudio allFiles ! i) i),
        oldPath = path_join [dir, sortAudio allFiles ! i],
        ftype = ''audio''\<rparr>"
  using assms
  by (simp add: buildPlan_def Let_def nth_append audioMoves_length audioMoves_nth)

lemma audioNewName_full:
  "fileFormat cfg = ''full-details'' \<Longrightarrow>
     audioNewName cfg ca st bn ct n f i =
       claimedBaseName ca st bn ct @ trackSuffix n i @ path_extname f"
  by (simp add: audioNewName_def claimedBaseName_def Let_def)

lemma example_tracks:
  "fileFormat fullDetails = ''full-details''
   \<and> sortAudio [''b.mp3'', ''a.mp3'', ''metadata.json''] = [''a.mp3'', ''b.mp3'']
   \<and> cleanFilename (claimedTrackName (cleanFilename ''Brandon Sanderson'') ''Mistborn'' ''01''
        (cleanFilename ''The Final Empire'') (0 + 1) (path_extname ''a.mp3''))
      = ''Brandon Sanderson - Mistborn 01 - The Final Empire - 01.mp3''
   \<and> cleanFilename (claimedTrackName (cleanFilename ''Brandon Sanderson'') ''Mistborn'' ''01''
        (cleanFilename ''The Final Empire'') (1 + 1) (path_extname ''b.mp3''))
      = ''Brandon Sanderson - Mistborn 01 - The Final Empire - 02.mp3''
   \<and> sortAudio [''U.mp3'', ''metadata.json''] = [''U.mp3'']
   \<and> cleanFilename (claimedBaseName (cleanFilename ''B'') [] [] (cleanFilename ''U'') @ path_extname ''U.mp3'')
      = ''B - U.mp3''"
  by code_simp

text \<open>
  The names by position. Under the full-details format an item with more than one audio
  file renames the file at position \<open>i\<close> (from 0) of its sorted audio list to the sanitized
  full-details name with track number \<open>i + 1\<close>, padded to width 2, and the extension of
  that file. An item with exactly one audio file gets no track number under any format:
  the sanitized base name and extension (full-details), the sanitized title and extension
  (title-only), or the sanitized original name.
\<close>

lemma track_names:
  "(fileFormat cfg = ''full-details'' \<and> 1 < length (sortAudio allFiles)
      \<and> i < length (sortAudio allFiles) \<longrightarrow>
      oldName (movePlan (buildPlan lib cfg a bt st bn dir allFiles) ! i) = sortAudio allFiles ! i
      \<and> newName (movePlan (buildPlan lib cfg a bt st bn dir allFiles) ! i) =
          cleanFilename (claimedTrackName (cleanFilename a) st bn (cleanFilename bt) (i + 1)
                           (path_extname (sortAudio allFiles ! i))))
   \<and> (sortAudio allFiles = [f] \<longrightarrow>
      oldName (movePlan (buildPlan lib cfg a bt st bn dir allFiles) ! 0) = f
      \<and> newName (movePlan (buildPlan lib cfg a bt st bn dir allFiles) ! 0) =
          cleanFilename
            (if fileFormat cfg = ''full-details''
             then claimedBaseName (cleanFilename a) st bn (cleanFilename bt) @ path_extname f
             else if fileFormat cfg = ''title-only'' then cleanFilename bt @ path_extname f
             else f))"
proof (intro conjI impI)
  assume h: "fileFormat cfg = ''full-details'' \<and> 1 < length (sortAudio allFiles)
      \<and> i < length (sortAudio allFiles)"
  then have i: "i < length (sortAudio allFiles)" by simp
  show "oldName (movePlan (buildPlan lib cfg a bt st bn dir allFiles) ! i) = sortAudio allFiles ! i"
    by (simp add: buildPlan_audio_nth [OF i])
  show "newName (movePlan (buildPlan lib cfg a bt st bn dir allFiles) ! i) =
          cleanFilename (claimedTrackName (cleanFilename a) st bn (cleanFilename bt) (i + 1)
                           (path_extname (sortAudio allFiles ! i)))"
    using h by (simp add: buildPlan_audio_nth [OF i] audioNewName_full claimedTrackName_def
        trackSuffix_def)
next
  assume s: "sortAudio allFiles = [f]"
  then have i: "0 < length (sortAudio allFiles)" by simp
  show "oldName (movePlan (buildPlan lib cfg a bt st bn dir allFiles) ! 0) = f"
    using s by (simp add: buildPlan_audio_nth [OF i])
  show "newName (movePlan (buildPlan lib cfg a bt st bn dir allFiles) ! 0) =
          cleanFilename
            (if fileFormat cfg = ''full-details''
             then claimedBaseName (cleanFilename a) st bn (cleanFilename bt) @ path_extname f
             else if fileFormat cfg = ''title-only'' then cleanFilename bt @ path_extname f
             else f)"
    using s by (simp add: buildPlan_audio_nth [OF i] audioNewName_def claimedBaseName_def
        trackSuffix_def Let_def)
qed

lemma track_names_example:
  "newName (movePlan mistbornPlan ! 0) = ''Brandon Sanderson - Mistborn 01 - The Final Empire - 01.mp3''
   \<and> newName (movePlan mistbornPlan ! 1) = ''Brandon Sanderson - Mistborn 01 - The Final Empire - 02.mp3''
   \<and> newName (movePlan (buildPlan ''/lib'' fullDetails ''B'' ''U'' [] [] ''/lib/B/U''
                  [''U.mp3'', ''metadata.json'']) ! 0) = ''B - U.mp3''"
proof -
  note a = track_names [of fullDetails "[''b.mp3'', ''a.mp3'', ''metadata.json'']" 0 "''/lib''"
      "''Brandon Sanderson''" "''The Final Empire''" "''Mistborn''" "''01''" "''/lib/x''" "''x''"]
  note b = track_names [of fullDetails "[''b.mp3'', ''a.mp3'', ''metadata.json'']" 1 "''/lib''"
      "''Brandon Sanderson''" "''The Final Empire''" "''Mistborn''" "''01''" "''/lib/x''" "''x''"]
  note c = track_names [of fullDetails "[''U.mp3'', ''metadata.json'']" 0 "''/lib''"
      "''B''" "''U''" "[]" "[]" "''/lib/B/U''" "''U.mp3''"]
  from a b c example_tracks show ?thesis by (simp add: mistbornPlan_def)
qed

text \<open>
  Claim C8. The \<open>i\<close>-th audio file in natural-sort order is said to get the track number
  \<open>i\<close>. The item of the claim's example with the audio files \<^verbatim>\<open>track2.mp3\<close>,
  \<^verbatim>\<open>track10.mp3\<close> and \<^verbatim>\<open>track1.mp3\<close> has \<^verbatim>\<open>track2.mp3\<close> second and \<^verbatim>\<open>track10.mp3\<close> third
  in natural-sort order. The planner numbers the files in the order of its own sort, which
  compares the joined keys: \<^verbatim>\<open>track10.mp3\<close> gets the number 02 and \<^verbatim>\<open>track2.mp3\<close> the
  number 03.
\<close>

theorem track_numbering_example:
  "map (\<lambda>m. (oldName m, newName m)) (movePlan numberedPlan)
     = [(''track1.mp3'', ''Brandon Sanderson - Mistborn 01 - The Final Empire - 01.mp3''),
        (''track10.mp3'', ''Brandon Sanderson - Mistborn 01 - The Final Empire - 02.mp3''),
        (''track2.mp3'', ''Brandon Sanderson - Mistborn 01 - The Final Empire - 03.mp3''),
        (''metadata.json'', ''metadata.json'')]
   \<and> fileFormat fullDetails = ''full-details''
   \<and> sortAudio [''track2.mp3'', ''track10.mp3'', ''track1.mp3'', ''metadata.json'']
     = [''track1.mp3'', ''track10.mp3'', ''track2.mp3'']"
  by code_simp

section \<open>Properties of the repeated scan\<close>

lemma ten_track_scan:
  "scan tenTrackLibrary ''/lib'' titleOnly = Inr (tenTrackStats, [tenTrackPlan])"
  by code_simp

lemma ten_track_execute:
  "execute tenTrackLibrary [tenTrackPlan]
     = (tenTrackLibraryAfter, \<lparr>applied = 1, errors = 0, collisions = []\<rparr>)"
  by code_simp

lemma ten_track_again:
  "scan tenTrackLibraryAfter ''/lib'' titleOnly = Inr (tenTrackStats, [tenTrackRescan])"
  by code_simp

text \<open>
  Claim C5. A scan that follows a successful execute of all returned plans is said to
  return no plan. A library whose only item has ten audio files, \<^verbatim>\<open>a.mp3\<close> to \<^verbatim>\<open>j.mp3\<close>,
  is scanned with title-only names: the plan numbers the files \<^verbatim>\<open>T - 01.mp3\<close> to
  \<^verbatim>\<open>T - 10.mp3\<close> and moves them to \<^verbatim>\<open>/lib/A/T\<close>. The execute applies the plan without error
  or collision, and the target directory then lists exactly the names of the plan. The
  repeated scan sorts \<^verbatim>\<open>T - 10.mp3\<close> before \<^verbatim>\<open>T - 02.mp3\<close>, as the comparison of the joined
  keys has it, and returns a plan that renames \<^verbatim>\<open>T - 10.mp3\<close> to \<^verbatim>\<open>T - 02.mp3\<close>,
  \<^verbatim>\<open>T - 02.mp3\<close> to \<^verbatim>\<open>T - 03.mp3\<close> and so on.
\<close>

theorem ten_track_rescan:
  "scan tenTrackLibrary ''/lib'' titleOnly = Inr (tenTrackStats, [tenTrackPlan])
   \<and> execute tenTrackLibrary [tenTrackPlan]
       = (tenTrackLibraryAfter, \<lparr>applied = 1, errors = 0, collisions = []\<rparr>)
   \<and> scan tenTrackLibraryAfter ''/lib'' titleOnly = Inr (tenTrackStats, [tenTrackRescan])
   \<and> fs_readdir tenTrackLibraryAfter ''/lib/A/T'' = Some (map newName (movePlan tenTrackPlan))
   \<and> map (\<lambda>m. (oldName m, newName m)) (take 3 (movePlan tenTrackRescan))
       = [(''T - 01.mp3'', ''T - 01.mp3''), (''T - 10.mp3'', ''T - 02.mp3''),
          (''T - 02.mp3'', ''T - 03.mp3'')]"
proof -
  have "fs_readdir tenTrackLibraryAfter ''/lib/A/T'' = Some (map newName (movePlan tenTrackPlan))"
    by code_simp
  moreover have "map (\<lambda>m. (oldName m, newName m)) (take 3 (movePlan tenTrackRescan))
       = [(''T - 01.mp3'', ''T - 01.mp3''), (''T - 10.mp3'', ''T - 02.mp3''),
          (''T - 02.mp3'', ''T - 03.mp3'')]"
    by code_simp
  ultimately show ?thesis
    using ten_track_scan ten_track_execute ten_track_again by (simp only: simp_thms)
qed

lemma example_execute_after:
  "execute exampleLibrary examplePlans
     = (exampleLibraryAfter, \<lparr>applied = 1, errors = 0, collisions = []\<rparr>)"
  unfolding exampleLibraryAfter_def by (rule example_execute)

lemma example_rescan:
  "scan exampleLibraryAfter ''/lib'' titleOnly = Inr (exampleStats, rescanPlans)"
  by code_simp

text \<open>
  The repeated scan returns a plan in a second situation, whatever the order of the sort:
  the target directory \<^verbatim>\<open>/lib/A/T\<close> of the item in \<^verbatim>\<open>x\<close> of the example library holds an
  audio file \<^verbatim>\<open>b.mp3\<close> already. The execute moves \<^verbatim>\<open>a.mp3\<close> there as \<^verbatim>\<open>T.mp3\<close> with the
  metadata, with one plan applied, no error and no collision. The next scan finds two audio
  files beside the metadata and plans to number them.
\<close>

lemma stray_file_rescan:
  "scan exampleLibrary ''/lib'' titleOnly = Inr (exampleStats, examplePlans)
   \<and> execute exampleLibrary examplePlans
       = (exampleLibraryAfter, \<lparr>applied = 1, errors = 0, collisions = []\<rparr>)
   \<and> scan exampleLibraryAfter ''/lib'' titleOnly = Inr (exampleStats, rescanPlans)
   \<and> rescanPlans \<noteq> []"
  using example_scan example_execute_after example_rescan by (simp add: rescanPlans_def)

lemma mset_insertBy: "mset (insertBy cmp x xs) = add_mset x (mset xs)"
  by (induction xs) simp_all

lemma mset_sortBy: "mset (sortBy cmp xs) = mset xs"
  by (induction xs) (simp_all add: sortBy_def mset_insertBy)

lemma set_sortBy: "set (sortBy cmp xs) = set xs"
  using mset_sortBy [of cmp xs] by (metis set_mset_mset)

lemma length_sortBy: "length (sortBy cmp xs) = length xs"
  using mset_sortBy [of cmp xs] by (metis size_mset)

lemma set_sortAudio: "set (sortAudio fs) = {f \<in> set fs. isAudio f}"
  by (auto simp: sortAudio_def set_sortBy)

lemma sortAudio_mset_cong:
  assumes "mset fs = mset gs"
  shows "set (sortAudio fs) = set (sortAudio gs)"
proof -
  from assms have "set fs = set gs" by (rule mset_eq_setD)
  then show ?thesis by (simp only: set_sortAudio)
qed

lemma newNames_of_plan:
  "map newName (movePlan (buildPlan lib cfg a bt st bn dir fs)) =
     map (\<lambda>i. cleanFilename
            (audioNewName cfg (cleanFilename a) st bn (cleanFilename bt) (length (sortAudio fs))
               (sortAudio fs ! i) i))
         [0 ..< length (sortAudio fs)]
     @ filter (\<lambda>f. \<not> isAudio f) fs"
proof -
  have a: "map newName (audioMoves cfg ca st bn ct dir n k xs) =
             map (\<lambda>i. cleanFilename (audioNewName cfg ca st bn ct n (xs ! i) (k + i))) [0 ..< length xs]"
    for ca ct n k xs
    by (rule nth_equalityI) (simp_all add: audioMoves_length audioMoves_nth)
  have o: "filter (\<lambda>f. f \<notin> set (sortAudio fs)) fs = filter (\<lambda>f. \<not> isAudio f) fs"
    by (rule filter_cong) (auto simp: set_sortAudio)
  show ?thesis
    by (simp add: buildPlan_def Let_def a otherMoves_def o comp_def)
qed

lemma targetDir_of_plan:
  "targetDir (buildPlan lib cfg a bt st bn dir fs) =
     targetPathOf lib cfg (cleanFilename a) st bn (cleanFilename bt)"
  by (simp add: buildPlan_def Let_def)

lemma no_changes_iff:
  "\<not> hasChanges (buildPlan lib cfg a bt st bn dir fs) \<longleftrightarrow>
     dir = targetPathOf lib cfg (cleanFilename a) st bn (cleanFilename bt)
     \<and> (\<forall>i < length (sortAudio fs).
          cleanFilename
            (audioNewName cfg (cleanFilename a) st bn (cleanFilename bt) (length (sortAudio fs))
               (sortAudio fs ! i) i) = sortAudio fs ! i)"
proof -
  let ?p = "buildPlan lib cfg a bt st bn dir fs"
  let ?L = "sortAudio fs"
  let ?am = "audioMoves cfg (cleanFilename a) st bn (cleanFilename bt) dir (length ?L) 0 ?L"
  have mp: "movePlan ?p = ?am @ otherMoves dir ?L fs" by (simp add: buildPlan_def Let_def)
  have o: "\<forall>m \<in> set (otherMoves dir ?L fs). oldName m = newName m"
    by (auto simp: otherMoves_def)
  have "(\<forall>m \<in> set ?am. oldName m = newName m) \<longleftrightarrow>
        (\<forall>i < length ?L. oldName (?am ! i) = newName (?am ! i))"
    by (simp add: all_set_conv_all_nth audioMoves_length)
  also have "\<dots> \<longleftrightarrow> (\<forall>i < length ?L.
          cleanFilename
            (audioNewName cfg (cleanFilename a) st bn (cleanFilename bt) (length ?L) (?L ! i) i)
          = ?L ! i)"
    by (auto simp: audioMoves_nth)
  finally have am: "(\<forall>m \<in> set ?am. oldName m = newName m) \<longleftrightarrow>
        (\<forall>i < length ?L. cleanFilename
            (audioNewName cfg (cleanFilename a) st bn (cleanFilename bt) (length ?L) (?L ! i) i)
          = ?L ! i)" .
  have "\<not> hasChanges ?p \<longleftrightarrow> bookDir ?p = targetDir ?p \<and> (\<forall>m \<in> set (movePlan ?p). oldName m = newName m)"
    by (auto simp: hasChanges_iff)
  also have "bookDir ?p = dir" by (simp add: buildPlan_def Let_def)
  finally show ?thesis using o am by (auto simp: mp targetDir_of_plan)
qed

lemma audioNewName_keep:
  "fileFormat cfg \<noteq> ''full-details'' \<Longrightarrow> fileFormat cfg \<noteq> ''title-only'' \<Longrightarrow>
     audioNewName cfg ca st bn ct n f i = f"
  by (simp add: audioNewName_def)

lemma replan_keep:
  assumes fmt: "fileFormat cfg \<noteq> ''full-details''" "fileFormat cfg \<noteq> ''title-only''"
      and fs': "mset fs' = mset (map newName (movePlan (buildPlan lib cfg a bt st bn dir fs)))"
  shows "\<not> hasChanges (buildPlan lib cfg a bt st bn
           (targetPathOf lib cfg (cleanFilename a) st bn (cleanFilename bt)) fs')"
proof -
  let ?L = "sortAudio fs" and ?L' = "sortAudio fs'"
  have names: "set fs' = cleanFilename ` set ?L \<union> {f \<in> set fs. \<not> isAudio f}"
  proof -
    have "set fs' = set (map newName (movePlan (buildPlan lib cfg a bt st bn dir fs)))"
      using fs' by (rule mset_eq_setD)
    also have "\<dots> = (\<lambda>i. cleanFilename (?L ! i)) ` {0 ..< length ?L} \<union> {f \<in> set fs. \<not> isAudio f}"
      by (simp add: newNames_of_plan audioNewName_keep [OF fmt])
    also have "(\<lambda>i. cleanFilename (?L ! i)) ` {0 ..< length ?L} = cleanFilename ` set ?L"
    proof -
      have "set ?L = (\<lambda>i. ?L ! i) ` {0 ..< length ?L}" by (auto simp: set_conv_nth)
      then show ?thesis by (simp only: image_image)
    qed
    finally show ?thesis .
  qed
  have "cleanFilename (?L' ! i) = ?L' ! i" if "i < length ?L'" for i
  proof -
    from that have m: "?L' ! i \<in> set ?L'" by simp
    then have "?L' ! i \<in> set fs'" and au: "isAudio (?L' ! i)" by (simp_all add: set_sortAudio)
    with names obtain g where "?L' ! i = cleanFilename g" by auto
    then show ?thesis by (simp add: cleanFilename_idem)
  qed
  then show ?thesis by (simp add: no_changes_iff audioNewName_keep [OF fmt])
qed

lemma isAlnum_plain:
  assumes "isAlnum c"
  shows "\<not> isSpace c" "c \<notin> set invalidChars" "c \<noteq> CHR ''.''" "c \<noteq> CHR ''/''"
  using assms by (auto simp: isAlnum_def isSpace_def invalidChars_def Let_def)

lemma toLowerChar_alnum: "isAlnum (toLowerChar c) \<Longrightarrow> isAlnum c"
  by (auto simp: isAlnum_def toLowerChar_def Let_def split: if_splits)

lemma of_char_toLowerChar:
  "(of_char (toLowerChar c) :: nat) =
     (if (65 \<le> (of_char c :: nat) \<and> (of_char c :: nat) \<le> 90)
         \<or> (192 \<le> (of_char c :: nat) \<and> (of_char c :: nat) \<le> 222 \<and> (of_char c :: nat) \<noteq> 215)
      then of_char c + 32 else of_char c)"
  by (auto simp: toLowerChar_def Let_def)

lemma toLowerChar_dot:
  assumes "toLowerChar c = CHR ''.''"
  shows "c = CHR ''.''"
proof -
  from assms have "(of_char (toLowerChar c) :: nat) = 46" by simp
  then have "(of_char c :: nat) = 46" by (simp add: of_char_toLowerChar split: if_splits)
  moreover have "(of_char (CHR ''.'') :: nat) = 46" by simp
  ultimately have "(of_char c :: nat) = of_char (CHR ''.'')" by (simp only:)
  then show ?thesis by (simp only: of_char_eq_iff)
qed

lemma plainExt_toLowerCase: "plainExt (toLowerCase ext) \<Longrightarrow> plainExt ext"
  by (cases ext)
     (auto simp: plainExt_def toLowerCase_def list_all_iff dest: toLowerChar_dot toLowerChar_alnum)

lemma plainExt_audioExtensions: "list_all plainExt audioExtensions"
  by code_simp

lemma isAudio_plainExt: "isAudio f \<Longrightarrow> plainExt (path_extname f)"
  using plainExt_audioExtensions
  by (auto simp: isAudio_def list_all_iff intro: plainExt_toLowerCase)

lemma plainExt_chars:
  assumes "plainExt ext"
  shows "ext \<noteq> []" "\<forall>c \<in> set ext. \<not> isSpace c" "\<forall>c \<in> set ext. c \<notin> set invalidChars"
    "\<forall>c \<in> set ext. c \<noteq> CHR ''/''"
proof -
  from assms obtain e where e: "ext = CHR ''.'' # e" "e \<noteq> []" "\<forall>c \<in> set e. isAlnum c"
    by (auto simp: plainExt_def list_all_iff split: list.splits)
  have d: "\<not> isSpace (CHR ''.'')" "CHR ''.'' \<notin> set invalidChars"
    by (simp_all add: isSpace_def invalidChars_def)
  show "ext \<noteq> []" using e by simp
  show "\<forall>c \<in> set ext. \<not> isSpace c" using e d by (auto dest: isAlnum_plain)
  show "\<forall>c \<in> set ext. c \<notin> set invalidChars" using e d by (auto dest: isAlnum_plain)
  show "\<forall>c \<in> set ext. c \<noteq> CHR ''/''" using e by (auto dest: isAlnum_plain)
qed

lemma collapseWs_plain: "\<forall>c \<in> set y. \<not> isSpace c \<Longrightarrow> collapseWs y = y"
  by (induction y) simp_all

lemma dropWhile_append_keep:
  "y \<noteq> [] \<Longrightarrow> \<not> P (hd y) \<Longrightarrow> dropWhile P (x @ y) = dropWhile P x @ y"
  by (induction x) (auto simp: dropWhile_hd_id)

lemma collapseWs_append:
  "y \<noteq> [] \<Longrightarrow> \<not> isSpace (hd y) \<Longrightarrow> collapseWs (x @ y) = collapseWs x @ collapseWs y"
proof (induction x rule: collapseWs.induct)
  case 1
  then show ?case by simp
next
  case (2 c cs)
  show ?case
  proof (cases "isSpace c")
    case True
    have "dropWhile isSpace (cs @ y) = dropWhile isSpace cs @ y"
      using 2(3,4) by (rule dropWhile_append_keep)
    with True 2 show ?thesis by simp
  next
    case False
    with 2 show ?thesis by simp
  qed
qed

lemma js_trim_append:
  assumes "y \<noteq> []" "\<not> isSpace (hd y)" "\<not> isSpace (last y)"
  shows "js_trim (x @ y) = dropWhile isSpace x @ y"
proof -
  have 1: "dropWhile isSpace (x @ y) = dropWhile isSpace x @ y"
    using assms(1,2) by (rule dropWhile_append_keep)
  have "\<not> edgeSpace (dropWhile isSpace x @ y)"
  proof (cases "dropWhile isSpace x")
    case Nil
    show ?thesis unfolding Nil using assms by (cases y) (auto simp: edgeSpace_def)
  next
    case (Cons c cs)
    then have "\<not> isSpace c" using hd_dropWhile [of isSpace x] by auto
    then show ?thesis unfolding Cons using assms by (simp add: edgeSpace_def)
  qed
  then have 2: "js_trim (dropWhile isSpace x @ y) = dropWhile isSpace x @ y" by (rule trim_id)
  have "js_trim (x @ y) = js_trim (dropWhile isSpace (x @ y))"
    by (simp only: js_trim_def dropWhile_idem)
  also have "\<dots> = js_trim (dropWhile isSpace x @ y)" by (simp only: 1)
  finally show ?thesis by (simp only: 2)
qed

lemma cleanFilename_append:
  assumes "y \<noteq> []" "\<not> isSpace (hd y)" "\<not> isSpace (last y)" "singleSpaced y"
    "\<forall>c \<in> set y. c \<notin> set invalidChars"
  shows "cleanFilename (s @ y) = stem s @ y"
proof -
  let ?v = "\<lambda>c. c \<notin> set invalidChars"
  have "filter ?v (s @ y) = filter ?v s @ y" using assms(5) by simp
  moreover have "collapseWs (filter ?v s @ y) = collapseWs (filter ?v s) @ y"
    using collapseWs_append [OF assms(1,2)] collapseWs_id [OF assms(4)] by simp
  ultimately show ?thesis
    using assms(1) by (simp add: cleanFilename_eq stem_def js_trim_append [OF assms(1-3)])
qed

lemma takeWhile_stop: "\<forall>c \<in> set a. P c \<Longrightarrow> \<not> P b \<Longrightarrow> takeWhile P (a @ b # r) = a"
  by (induction a) auto

lemma dropWhile_stop: "\<forall>c \<in> set a. P c \<Longrightarrow> \<not> P b \<Longrightarrow> dropWhile P (a @ b # r) = b # r"
  by (induction a) auto

lemma path_extname_plain:
  assumes "plainExt ext" and "\<forall>c \<in> set x. c \<noteq> CHR ''/''"
  shows "path_extname (x @ ext) = (if x = [] then [] else ext)"
proof -
  from assms(1) obtain e where e: "ext = CHR ''.'' # e" "e \<noteq> []" "\<forall>c \<in> set e. isAlnum c"
    by (auto simp: plainExt_def list_all_iff split: list.splits)
  let ?r = "rev e @ CHR ''.'' # rev x"
  have r: "rev (x @ ext) = ?r" by (simp add: e)
  have ns: "\<forall>c \<in> set ?r. c \<noteq> CHR ''/''" using e assms(2) by (auto dest: isAlnum_plain)
  have hd: "hd ?r \<noteq> CHR ''/''" using ns e(2) by (cases "rev e") auto
  have 1: "dropWhile (\<lambda>c. c = CHR ''/'') ?r = ?r"
    using hd e(2) by (intro dropWhile_hd_id) simp_all
  have 2: "takeWhile (\<lambda>c. c \<noteq> CHR ''/'') ?r = ?r" using ns by simp
  have nd: "\<forall>c \<in> set (rev e). c \<noteq> CHR ''.''" using e by (auto dest: isAlnum_plain)
  have 3: "takeWhile (\<lambda>c. c \<noteq> CHR ''.'') ?r = rev e"
    using nd by (intro takeWhile_stop) simp_all
  have 4: "dropWhile (\<lambda>c. c \<noteq> CHR ''.'') ?r = CHR ''.'' # rev x"
    using nd by (intro dropWhile_stop) simp_all
  have 5: "?r = ''..'' \<longleftrightarrow> False" if "x \<noteq> []"
  proof -
    have l: "length ?r \<ge> 3" using that e(2) by (cases x; cases e) simp_all
    have "?r \<noteq> ''..''"
    proof
      assume a: "?r = ''..''"
      have "length ?r = length ''..''" by (simp only: a)
      with l show False by simp
    qed
    then show ?thesis by simp
  qed
  show ?thesis
  proof (cases "x = []")
    case True
    then show ?thesis unfolding path_extname_def r Let_def 1 2 3 4 by simp
  next
    case False
    then show ?thesis unfolding path_extname_def r Let_def 1 2 3 4 using 5 e by simp
  qed
qed

lemma stem_no_slash: "\<forall>c \<in> set (stem s). c \<noteq> CHR ''/''"
proof -
  have "set (stem s) \<subseteq> insert (CHR '' '') (set (filter (\<lambda>c. c \<notin> set invalidChars) s))"
    unfolding stem_def using set_collapseWs set_dropWhileD by fast
  then show ?thesis by (auto simp: invalidChars_def)
qed

lemma singleSpaced_plain: "\<forall>c \<in> set y. \<not> isSpace c \<Longrightarrow> singleSpaced y"
  by (induction y) simp_all

lemma cleanFilename_ext:
  assumes "plainExt ext"
  shows "cleanFilename (s @ ext) = stem s @ ext"
proof -
  note c = plainExt_chars [OF assms]
  have "\<not> isSpace (hd ext)" "\<not> isSpace (last ext)" using c(1,2) by simp_all
  then show ?thesis using c by (intro cleanFilename_append singleSpaced_plain) simp_all
qed

lemma last_dropWhile_keep:
  assumes "z \<noteq> []" "\<not> P (last z)"
  shows "dropWhile P z \<noteq> [] \<and> last (dropWhile P z) = last z"
  using assms by (induction z) (auto split: if_splits)

lemma splitDigits_unfold:
  "splitDigits s =
     (if dropWhile (\<lambda>c. \<not> isDigit c) s = [] then [takeWhile (\<lambda>c. \<not> isDigit c) s]
      else takeWhile (\<lambda>c. \<not> isDigit c) s
           # takeWhile isDigit (dropWhile (\<lambda>c. \<not> isDigit c) s)
           # splitDigits (dropWhile isDigit (dropWhile (\<lambda>c. \<not> isDigit c) s)))"
  by (subst splitDigits.simps) (simp add: Let_def)

lemma splitDigits_nondigits:
  "\<forall>c \<in> set z. \<not> isDigit c \<Longrightarrow> splitDigits z = [z]"
  by (subst splitDigits.simps) simp

lemma splitDigits_append:
  assumes "z = [] \<or> \<not> isDigit (last z)" "d \<noteq> []" "\<forall>c \<in> set d. isDigit c"
    "e = [] \<or> \<not> isDigit (hd e)"
  shows "splitDigits (z @ d @ e) = splitDigits z @ d # splitDigits e"
  using assms(1)
proof (induction "length z" arbitrary: z rule: less_induct)
  case less
  let ?nd = "\<lambda>c. \<not> isDigit c"
  have de1: "takeWhile isDigit (d @ e) = d"
    using assms(3,4) by (cases e) (auto simp: takeWhile_append2 [of d])
  have de2: "dropWhile isDigit (d @ e) = e"
    using assms(3,4) by (cases e) (auto simp: dropWhile_append2 [of d])
  obtain d0 ds where d: "d = d0 # ds" using assms(2) by (cases d) auto
  then have d0: "isDigit d0" using assms(3) by simp
  show ?case
  proof (cases "dropWhile ?nd z = []")
    case True
    then have all: "\<forall>c \<in> set z. \<not> isDigit c" by simp
    have 1: "takeWhile ?nd (z @ d @ e) = z"
      using takeWhile_stop [of z ?nd d0 "ds @ e"] all d0 by (simp add: d)
    have 2: "dropWhile ?nd (z @ d @ e) = d @ e"
      using dropWhile_stop [of z ?nd d0 "ds @ e"] all d0 by (simp add: d)
    have "splitDigits (z @ d @ e) = (if d @ e = [] then [z] else z # d # splitDigits e)"
      by (subst splitDigits_unfold) (simp only: 1 2 de1 de2)
    with splitDigits_nondigits [OF all] assms(2) show ?thesis by simp
  next
    case False
    let ?rest = "dropWhile ?nd z"
    let ?z' = "dropWhile isDigit ?rest"
    from False have zne: "z \<noteq> []" by auto
    with less.prems have lz: "\<not> isDigit (last z)" by simp
    from hd_dropWhile [OF False] have hr: "isDigit (hd ?rest)" by simp
    then obtain x where x: "x \<in> set z" "isDigit x"
      using False by (metis hd_in_set set_dropWhileD)
    have lr: "?rest \<noteq> [] \<and> last ?rest = last z"
      using zne lz last_dropWhile_keep [of z ?nd] False
      by (metis append_Nil2 last_appendR takeWhile_dropWhile_id)
    then have lr2: "\<not> isDigit (last ?rest)" using lz by simp
    have z': "?z' \<noteq> [] \<and> last ?z' = last ?rest"
      using lr lr2 by (intro last_dropWhile_keep) simp_all
    have len: "length ?z' < length z"
      using dropWhile_twice_shorter [of isDigit z] False by simp
    obtain y where y: "y \<in> set ?rest" "\<not> isDigit y"
      using lr lr2 by (metis last_in_set)
    have 1: "takeWhile ?nd (z @ d @ e) = takeWhile ?nd z"
      using x by (intro takeWhile_append1 [of x]) simp_all
    have 2: "dropWhile ?nd (z @ d @ e) = ?rest @ d @ e"
      using x by (intro dropWhile_append1 [of x]) simp_all
    have 3: "takeWhile isDigit (?rest @ d @ e) = takeWhile isDigit ?rest"
      using y by (intro takeWhile_append1 [of y]) simp_all
    have 4: "dropWhile isDigit (?rest @ d @ e) = ?z' @ d @ e"
      using y by (intro dropWhile_append1 [of y]) simp_all
    have ih: "splitDigits (?z' @ d @ e) = splitDigits ?z' @ d # splitDigits e"
      using z' lr2 by (intro less.hyps [OF len]) simp
    have "splitDigits (z @ d @ e)
               = (if ?rest @ d @ e = [] then [takeWhile ?nd z]
                  else takeWhile ?nd z # takeWhile isDigit ?rest # splitDigits (?z' @ d @ e))"
      by (subst splitDigits_unfold) (simp only: 1 2 3 4)
    then have a: "splitDigits (z @ d @ e)
               = takeWhile ?nd z # takeWhile isDigit ?rest # splitDigits (?z' @ d @ e)"
      using assms(2) by simp
    have "splitDigits z = (if ?rest = [] then [takeWhile ?nd z]
             else takeWhile ?nd z # takeWhile isDigit ?rest # splitDigits ?z')"
      by (rule splitDigits_unfold)
    then have b: "splitDigits z = takeWhile ?nd z # takeWhile isDigit ?rest # splitDigits ?z'"
      using False by (simp only: if_False)
    show ?thesis by (simp add: a b ih)
  qed
qed

lemma splitDigits_nonempty: "splitDigits s \<noteq> []"
  by (subst splitDigits.simps) (simp add: Let_def)

lemma joinWith_append:
  "xs \<noteq> [] \<Longrightarrow> joinWith sep (xs @ ys) = joinWith sep xs @ concat (map (\<lambda>q. sep @ q) ys)"
  by (cases xs) (simp_all add: joinWith_def)

lemma strLess_prefix:
  "x \<noteq> y \<Longrightarrow> strLess (p @ x # a) (p @ y # b) = ((of_char x :: nat) < of_char y)"
  by (induction p) simp_all

lemma strLess_irrefl: "\<not> strLess s s"
  by (induction s) simp_all

lemma naturalSortKey_parts: "naturalSortKey s = map keyPartOf (splitDigits s)"
  by (simp add: naturalSortKey_def keyPartOf_def [abs_def])

lemma track_digits:
  "\<forall>k \<in> set [1 ..< 10].
     padStart 2 CHR ''0'' (showNat k) = [CHR ''0'', digitChar k]
     \<and> keyPartToString (keyPartOf [CHR ''0'', digitChar k]) = [digitChar k]
     \<and> (of_char (digitChar k) :: nat) = 48 + k
     \<and> isDigit (CHR ''0'') \<and> isDigit (digitChar k)"
  by code_simp

lemma plainExt_hd: "plainExt e \<Longrightarrow> e \<noteq> [] \<and> \<not> isDigit (hd e)"
  by (auto simp: plainExt_def isDigit_def split: list.splits)

lemma track_key:
  assumes "z \<noteq> []" "\<not> isDigit (last z)" "plainExt e" "k \<in> set [1 ..< 10]"
  shows "keyToString (naturalSortKey (z @ padStart 2 CHR ''0'' (showNat k) @ e)) =
           (keyToString (naturalSortKey z) @ '','') @ digitChar k
           # concat (map (\<lambda>q. '','' @ q) (map keyPartToString (naturalSortKey e)))"
proof -
  from track_digits assms(4)
  have t: "padStart 2 CHR ''0'' (showNat k) = [CHR ''0'', digitChar k]"
    and kp: "keyPartToString (keyPartOf [CHR ''0'', digitChar k]) = [digitChar k]"
    and dg: "isDigit (CHR ''0'')" "isDigit (digitChar k)"
    by blast+
  let ?d = "[CHR ''0'', digitChar k]"
  have "splitDigits (z @ ?d @ e) = splitDigits z @ ?d # splitDigits e"
    using assms(1,2) plainExt_hd [OF assms(3)] dg by (intro splitDigits_append) simp_all
  then have "naturalSortKey (z @ ?d @ e) = naturalSortKey z @ keyPartOf ?d # naturalSortKey e"
    by (simp add: naturalSortKey_parts)
  moreover have "naturalSortKey z \<noteq> []" by (simp add: naturalSortKey_parts splitDigits_nonempty)
  ultimately show ?thesis
    unfolding t keyToString_def
    by (simp add: joinWith_append kp)
qed

lemma compare_tracks:
  assumes "z \<noteq> []" "\<not> isDigit (last z)" "plainExt e1" "plainExt e2"
    "k1 \<in> set [1 ..< 10]" "k2 \<in> set [1 ..< 10]" "k1 \<noteq> k2"
  shows "compareNames (z @ padStart 2 CHR ''0'' (showNat k1) @ e1)
           (z @ padStart 2 CHR ''0'' (showNat k2) @ e2) \<le> 0 \<longleftrightarrow> k1 < k2"
proof -
  from track_digits assms(5,6)
  have o: "(of_char (digitChar k1) :: nat) = 48 + k1" "(of_char (digitChar k2) :: nat) = 48 + k2"
    by blast+
  with assms(7) have ne: "digitChar k1 \<noteq> digitChar k2" by auto
  note k1 = track_key [OF assms(1,2,3,5)] and k2 = track_key [OF assms(1,2,4,6)]
  have a: "keyLess (naturalSortKey (z @ padStart 2 CHR ''0'' (showNat k1) @ e1))
             (naturalSortKey (z @ padStart 2 CHR ''0'' (showNat k2) @ e2)) \<longleftrightarrow> k1 < k2"
    unfolding keyLess_def k1 k2 by (simp only: strLess_prefix [OF ne] o) simp
  have b: "keyLess (naturalSortKey (z @ padStart 2 CHR ''0'' (showNat k2) @ e2))
             (naturalSortKey (z @ padStart 2 CHR ''0'' (showNat k1) @ e1)) \<longleftrightarrow> k2 < k1"
    unfolding keyLess_def k1 k2 by (simp only: strLess_prefix [OF ne [symmetric]] o) simp
  show ?thesis using a b assms(7) by (auto simp: compareNames_def Let_def)
qed

lemma compareNames_same: "compareNames x x = 0"
  by (simp add: compareNames_def Let_def keyLess_def strLess_irrefl)

lemma filter_eq_singleton: "distinct zs \<Longrightarrow> y \<in> set zs \<Longrightarrow> filter (\<lambda>x. x = y) zs = [y]"
  by (induction zs) (auto simp: filter_empty_conv)

lemma sortBy_indexed:
  assumes perm: "mset xs = mset (map g [0 ..< n])"
      and cmp: "\<And>i j. i < n \<Longrightarrow> j < n \<Longrightarrow> (cmp (g i) (g j) \<le> 0) = (i \<le> j)"
  shows "sortBy cmp xs = map g [0 ..< n]"
proof -
  let ?S = "g ` {..<n}"
  let ?ys = "map g [0 ..< n]"
  have inj: "inj_on g {..<n}"
  proof (rule inj_onI)
    fix i j assume "i \<in> {..<n}" "j \<in> {..<n}" "g i = g j"
    then have "(cmp (g i) (g j) \<le> 0) = (i \<le> j)" "(cmp (g i) (g j) \<le> 0) = (j \<le> i)"
      "(cmp (g i) (g i) \<le> 0) = (i \<le> i)"
      using cmp [of i j] cmp [of j i] cmp [of i i] by simp_all
    then show "i = j" using \<open>g i = g j\<close> by auto
  qed
  define idx where "idx = the_inv_into {..<n} g"
  have idx: "idx (g i) = i" if "i < n" for i
    using that inj by (simp add: idx_def the_inv_into_f_f)
  have S: "\<exists>i < n. x = g i" if "x \<in> ?S" for x using that by auto
  have le: "(cmp x y \<le> 0) = (idx x \<le> idx y)" if "x \<in> ?S" "y \<in> ?S" for x y
  proof -
    from S that obtain i j where "i < n" "x = g i" "j < n" "y = g j" by blast
    then show ?thesis by (simp add: cmp idx)
  qed
  have ins: "insertBy cmp x zs = insort_key idx x zs" if "x \<in> ?S" "set zs \<subseteq> ?S" for x zs
    using that by (induction zs) (simp_all add: le)
  have setxs: "set xs = ?S"
  proof -
    have "set xs = set ?ys" using perm by (rule mset_eq_setD)
    then show ?thesis by (simp add: atLeast0LessThan)
  qed
  have srt: "sortBy cmp zs = sort_key idx zs" if "set zs \<subseteq> ?S" for zs
    using that
  proof (induction zs)
    case Nil
    then show ?case by (simp add: sortBy_def)
  next
    case (Cons z zs)
    then have "sortBy cmp zs = sort_key idx zs" by simp
    moreover have "set (sort_key idx zs) \<subseteq> ?S" using Cons.prems by simp
    ultimately show ?case using Cons.prems ins [of z "sort_key idx zs"] by (simp add: sortBy_def)
  qed
  have dys: "distinct ?ys" using inj by (simp add: distinct_map atLeast0LessThan)
  have dxs: "distinct xs" using perm dys by (metis mset_eq_imp_distinct_iff)
  have "sort_key idx xs = ?ys"
  proof (rule properties_for_sort_key)
    show "mset ?ys = mset xs" using perm by simp
    show "sorted (map idx ?ys)"
    proof -
      have "map (\<lambda>x. idx (g x)) [0 ..< n] = [0 ..< n]" by (rule map_idI) (simp add: idx)
      then have "map idx ?ys = [0 ..< n]" by (simp add: comp_def)
      then show ?thesis by simp
    qed
    fix y assume y: "y \<in> set ?ys"
    then have yS: "y \<in> ?S" by (simp add: atLeast0LessThan)
    have eq: "(idx y = idx x) = (x = y)" if "x \<in> ?S" for x
    proof -
      from S that yS obtain i j where ij: "i < n" "x = g i" "j < n" "y = g j" by blast
      then have "(x = y) = (i = j)" using inj by (auto dest: inj_onD)
      with ij show ?thesis by (auto simp: idx)
    qed
    have "filter (\<lambda>x. idx y = idx x) ?ys = filter (\<lambda>x. x = y) ?ys"
      by (rule filter_cong) (auto simp: eq atLeast0LessThan)
    also have "\<dots> = [y]" using dys y by (rule filter_eq_singleton)
    finally have 1: "filter (\<lambda>x. idx y = idx x) ?ys = [y]" .
    have "filter (\<lambda>x. idx y = idx x) xs = filter (\<lambda>x. x = y) xs"
      by (rule filter_cong) (auto simp: eq setxs)
    also have "\<dots> = [y]" using dxs yS setxs by (intro filter_eq_singleton) simp_all
    finally show "filter (\<lambda>x. idx y = idx x) ?ys = filter (\<lambda>x. idx y = idx x) xs"
      using 1 by simp
  qed
  with srt [of xs] setxs show ?thesis by simp
qed

lemma isDigit_alnum: "isDigit c \<Longrightarrow> isAlnum c"
  by (simp add: isDigit_def isAlnum_def Let_def)

lemma dash_chars:
  "\<not> isSpace (CHR ''-'')" "CHR ''-'' \<notin> set invalidChars" "CHR ''-'' \<noteq> CHR ''/''"
  "isSpace (CHR '' '')" "CHR '' '' \<notin> set invalidChars" "CHR '' '' \<noteq> CHR ''/''"
  "\<not> isDigit (CHR '' '')"
  by (simp_all add: isSpace_def invalidChars_def isDigit_def)

lemma tracked_name:
  assumes "plainExt e" "k \<in> set [1 ..< 10]"
  shows "cleanFilename (B @ '' - '' @ padStart 2 CHR ''0'' (showNat k) @ e)
           = (stem (B @ '' '') @ ''- '') @ padStart 2 CHR ''0'' (showNat k) @ e"
proof -
  from track_digits assms(2)
  have t: "padStart 2 CHR ''0'' (showNat k) = [CHR ''0'', digitChar k]"
    and dg: "isDigit (CHR ''0'')" "isDigit (digitChar k)"
    by blast+
  note c = plainExt_chars [OF assms(1)]
  let ?y = "''- '' @ [CHR ''0'', digitChar k] @ e"
  have ns: "\<not> isSpace (CHR ''0'')" "\<not> isSpace (digitChar k)"
    using dg by (simp_all add: isDigit_not_space)
  have v: "CHR ''0'' \<notin> set invalidChars" "digitChar k \<notin> set invalidChars"
    using dg by (auto dest!: isDigit_alnum dest: isAlnum_plain)
  have 1: "?y \<noteq> []" "\<not> isSpace (hd ?y)" by (simp_all add: dash_chars)
  have 2: "\<not> isSpace (last ?y)" using c(1,2) by simp
  have 3: "singleSpaced ?y"
    using c(2) ns singleSpaced_plain [of e] by (simp add: dash_chars)
  have 4: "\<forall>c \<in> set ?y. c \<notin> set invalidChars" using c(3) v by (simp add: dash_chars)
  have "cleanFilename ((B @ '' '') @ ?y) = stem (B @ '' '') @ ?y"
    using 1 2 3 4 by (rule cleanFilename_append)
  then show ?thesis by (simp add: t)
qed

lemma tracked_stem:
  "stem (B @ '' '') @ ''- '' \<noteq> []"
  "\<not> isDigit (last (stem (B @ '' '') @ ''- ''))"
  "\<forall>c \<in> set (stem (B @ '' '') @ ''- ''). c \<noteq> CHR ''/''"
  using stem_no_slash [of "B @ '' ''"] by (simp_all add: dash_chars)

lemma isAudio_by_ext: "path_extname f = path_extname g \<Longrightarrow> isAudio f = isAudio g"
  by (simp add: isAudio_def)

lemma not_audio_without_ext: "path_extname f = [] \<Longrightarrow> \<not> isAudio f"
  by (simp add: isAudio_def toLowerCase_def audioExtensions_def)

lemma tracked_sorted:
  assumes aud: "\<forall>g \<in> set L. isAudio g" and n: "length L \<le> 9"
      and perm: "mset (filter isAudio fs')
                   = mset (filter isAudio (map (\<lambda>i. cleanFilename
                        (B @ trackSuffix (length L) i @ path_extname (L ! i))) [0 ..< length L]))"
  shows "\<forall>i < length (sortBy compareNames (filter isAudio fs')).
           cleanFilename (B @ trackSuffix (length (sortBy compareNames (filter isAudio fs'))) i
                            @ path_extname (sortBy compareNames (filter isAudio fs') ! i))
           = sortBy compareNames (filter isAudio fs') ! i"
proof -
  let ?n = "length L"
  let ?N = "\<lambda>i. cleanFilename (B @ trackSuffix ?n i @ path_extname (L ! i))"
  let ?A = "filter isAudio fs'"
  let ?L' = "sortBy compareNames ?A"
  have pe: "plainExt (path_extname (L ! i))" if "i < ?n" for i
    using that aud by (intro isAudio_plainExt) simp
  have au: "isAudio (L ! i)" if "i < ?n" for i using that aud by simp
  consider "?n = 0" | "?n = 1" | "2 \<le> ?n" by linarith
  then show ?thesis
  proof cases
    case 1
    with perm have "?A = []" by simp
    then show ?thesis by (simp add: sortBy_def)
  next
    case 2
    let ?e = "path_extname (L ! 0)"
    have N0: "?N 0 = stem B @ ?e" using pe [of 0] 2 by (simp add: trackSuffix_def cleanFilename_ext)
    have ext: "path_extname (?N 0) = (if stem B = [] then [] else ?e)"
      unfolding N0 using pe [of 0] 2 stem_no_slash by (intro path_extname_plain) simp_all
    show ?thesis
    proof (cases "stem B = []")
      case True
      with ext have "\<not> isAudio (?N 0)" by (intro not_audio_without_ext) simp
      with perm 2 have "?A = []" by simp
      then show ?thesis by (simp add: sortBy_def)
    next
      case False
      with ext have e: "path_extname (?N 0) = ?e" by simp
      then have "isAudio (?N 0)" using au [of 0] 2 isAudio_by_ext [of "?N 0" "L ! 0"] by simp
      with perm 2 have "mset ?A = {#?N 0#}" by simp
      then have A: "?A = [?N 0]" by (metis mset_single_iff_right)
      then have L': "?L' = [?N 0]" by (simp add: sortBy_def)
      show ?thesis unfolding L' using e 2 by (simp add: trackSuffix_def)
    qed
  next
    case 3
    let ?z = "stem (B @ '' '') @ ''- ''"
    let ?t = "\<lambda>i. padStart 2 CHR ''0'' (showNat (i + 1))"
    have k: "i + 1 \<in> set [1 ..< 10]" if "i < ?n" for i using that n by simp
    have sfx: "trackSuffix ?n i = '' - '' @ ?t i" for i using 3 by (simp add: trackSuffix_def)
    have N: "?N i = ?z @ ?t i @ path_extname (L ! i)" if "i < ?n" for i
      using tracked_name [OF pe [OF that] k [OF that], of B] by (simp add: sfx)
    have td: "?t i = [CHR ''0'', digitChar (i + 1)] \<and> isDigit (digitChar (i + 1))" if "i < ?n" for i
      using track_digits k [OF that] by blast
    have ext: "path_extname (?N i) = path_extname (L ! i)" if "i < ?n" for i
    proof -
      have "digitChar (i + 1) \<noteq> CHR ''/''"
        using td [OF that] isAlnum_plain(4) [OF isDigit_alnum] by blast
      then have "\<forall>c \<in> set (?z @ ?t i). c \<noteq> CHR ''/''"
        using tracked_stem(3) [of B] td [OF that] by simp
      then have "path_extname ((?z @ ?t i) @ path_extname (L ! i))
                   = (if ?z @ ?t i = [] then [] else path_extname (L ! i))"
        using pe [OF that] by (intro path_extname_plain) simp_all
      then show ?thesis using N [OF that] by simp
    qed
    have aN: "isAudio (?N i)" if "i < ?n" for i
      using ext [OF that] au [OF that] isAudio_by_ext [of "?N i" "L ! i"] by simp
    have "filter isAudio (map ?N [0 ..< ?n]) = map ?N [0 ..< ?n]"
      using aN by (intro filter_True) auto
    with perm have p: "mset ?A = mset (map ?N [0 ..< ?n])" by simp
    have cmp: "(compareNames (?N i) (?N j) \<le> 0) = (i \<le> j)" if "i < ?n" "j < ?n" for i j
    proof (cases "i = j")
      case True
      then show ?thesis by (simp add: compareNames_same)
    next
      case False
      have "(compareNames (?z @ ?t i @ path_extname (L ! i)) (?z @ ?t j @ path_extname (L ! j)) \<le> 0)
              = (i + 1 < j + 1)"
        using tracked_stem(1,2) [of B] pe [OF that(1)] pe [OF that(2)] k [OF that(1)] k [OF that(2)] False
        by (intro compare_tracks) simp_all
      with False show ?thesis unfolding N [OF that(1)] N [OF that(2)] by auto
    qed
    from p cmp have L': "?L' = map ?N [0 ..< ?n]" by (rule sortBy_indexed)
    show ?thesis unfolding L' using ext by simp
  qed
qed

lemma audioNewName_tracked:
  assumes "fileFormat cfg = ''full-details'' \<or> fileFormat cfg = ''title-only''"
  shows "\<exists>B. \<forall>n f i. audioNewName cfg ca st bn ct n f i = B @ trackSuffix n i @ path_extname f"
proof (cases "fileFormat cfg = ''full-details''")
  case True
  then show ?thesis by (simp add: audioNewName_def Let_def)
next
  case False
  with assms have "fileFormat cfg = ''title-only''" by simp
  with False show ?thesis by (simp add: audioNewName_def Let_def)
qed

lemma replan_tracked:
  assumes fmt: "fileFormat cfg = ''full-details'' \<or> fileFormat cfg = ''title-only''"
      and n: "length (sortAudio fs) \<le> 9"
      and fs': "mset fs' = mset (map newName (movePlan (buildPlan lib cfg a bt st bn dir fs)))"
  shows "\<not> hasChanges (buildPlan lib cfg a bt st bn
           (targetPathOf lib cfg (cleanFilename a) st bn (cleanFilename bt)) fs')"
proof -
  let ?L = "sortAudio fs"
  from audioNewName_tracked [OF fmt, of "cleanFilename a" st bn "cleanFilename bt"]
  obtain B where B: "\<And>n f i. audioNewName cfg (cleanFilename a) st bn (cleanFilename bt) n f i
                       = B @ trackSuffix n i @ path_extname f"
    by blast
  let ?N = "map (\<lambda>i. cleanFilename (B @ trackSuffix (length ?L) i @ path_extname (?L ! i)))
              [0 ..< length ?L]"
  have "mset (filter isAudio fs')
          = filter_mset isAudio (mset (map newName (movePlan (buildPlan lib cfg a bt st bn dir fs))))"
    by (simp only: fs' [symmetric] mset_filter)
  also have "\<dots> = mset (filter isAudio ?N)"
    by (simp add: newNames_of_plan B)
  finally have perm: "mset (filter isAudio fs') = mset (filter isAudio ?N)" .
  have aud: "\<forall>g \<in> set ?L. isAudio g" by (simp add: set_sortAudio)
  from tracked_sorted [OF aud n perm] show ?thesis
    by (simp add: no_changes_iff B sortAudio_def)
qed

lemma replan_unchanged:
  assumes "(fileFormat cfg \<noteq> ''full-details'' \<and> fileFormat cfg \<noteq> ''title-only'')
             \<or> length (sortAudio fs) \<le> 9"
      and "mset fs' = mset (map newName (movePlan (buildPlan lib cfg a bt st bn dir fs)))"
  shows "\<not> hasChanges (buildPlan lib cfg a bt st bn
           (targetPathOf lib cfg (cleanFilename a) st bn (cleanFilename bt)) fs')"
proof (cases "fileFormat cfg = ''full-details'' \<or> fileFormat cfg = ''title-only''")
  case True
  with assms(1) have n: "length (sortAudio fs) \<le> 9" by blast
  from True n assms(2) show ?thesis by (rule replan_tracked)
next
  case False
  then have "fileFormat cfg \<noteq> ''full-details''" "fileFormat cfg \<noteq> ''title-only''" by simp_all
  then show ?thesis using assms(2) by (rule replan_keep)
qed

lemma audio_moves_count:
  "length (filter (\<lambda>m. ftype m = ''audio'') (movePlan (buildPlan lib cfg a bt st bn dir fs)))
     = length (sortAudio fs)"
proof -
  have a: "filter (\<lambda>m. ftype m = ''audio'') (audioMoves cfg ca st bn ct dir n k xs)
             = audioMoves cfg ca st bn ct dir n k xs" for ca ct n k xs
    by (induction xs arbitrary: k) simp_all
  have o: "filter (\<lambda>m. ftype m = ''audio'') (otherMoves dir xs fs) = []" for xs
    by (simp add: otherMoves_def)
  show ?thesis by (simp add: buildPlan_def Let_def a o audioMoves_length)
qed

lemma itemPlan_cases:
  assumes "itemPlan t lib cfg m = Some p"
  obtains d a bt nar sf fs where
    "fs_readJson t m = Some d" "extractFields d = Some (a, bt, nar, sf)"
    "fs_readdir t (path_dirname m) = Some fs"
    "p = buildPlan lib cfg a bt (fst (normalizeSeries sf emptyStats))
           (fst (snd (normalizeSeries sf emptyStats))) (path_dirname m) fs"
  using assms unfolding itemPlan_def Let_def
  by (auto split: option.splits prod.splits)

text \<open>
  Where the planner does leave an executed layout in place. Let \<open>p\<close> be the plan of an
  item. Suppose that afterwards the metadata of the item is read, with the same content,
  from a file in the target directory of \<open>p\<close>, and that this directory lists the new names
  of the moves of \<open>p\<close>, each once and nothing else. Suppose also that the file format keeps
  the original names or that \<open>p\<close> has at most nine audio moves, so that the order of the
  sort and the order of the track numbers agree. Then a scan with the same configuration
  does not report the item.
\<close>

lemma replan_in_place:
  assumes plan: "itemPlan t lib cfg m = Some p"
      and meta: "fs_readJson t' m' = fs_readJson t m"
      and dir: "path_dirname m' = targetDir p"
      and files: "fs_readdir t' (targetDir p) = Some files'"
      and names: "mset files' = mset (map newName (movePlan p))"
      and fmt: "(fileFormat cfg \<noteq> ''full-details'' \<and> fileFormat cfg \<noteq> ''title-only'')
                  \<or> audioCount p \<le> 9"
  shows "snd (processItem t' lib cfg m' st) = None"
proof -
  from plan obtain d a bt nar sf fs where
    d: "fs_readJson t m = Some d" and e: "extractFields d = Some (a, bt, nar, sf)"
    and p: "p = buildPlan lib cfg a bt (fst (normalizeSeries sf emptyStats))
                  (fst (snd (normalizeSeries sf emptyStats))) (path_dirname m) fs"
    by (rule itemPlan_cases)
  let ?s = "fst (normalizeSeries sf emptyStats)" and ?b = "fst (snd (normalizeSeries sf emptyStats))"
  have td: "targetDir p = targetPathOf lib cfg (cleanFilename a) ?s ?b (cleanFilename bt)"
    unfolding p by (rule targetDir_of_plan)
  have c: "(fileFormat cfg \<noteq> ''full-details'' \<and> fileFormat cfg \<noteq> ''title-only'')
             \<or> length (sortAudio fs) \<le> 9"
    using fmt unfolding audioCount_def p audio_moves_count .
  have "\<not> hasChanges (buildPlan lib cfg a bt ?s ?b
           (targetPathOf lib cfg (cleanFilename a) ?s ?b (cleanFilename bt)) files')"
    using c names unfolding p by (rule replan_unchanged)
  then have nc: "\<not> hasChanges (buildPlan lib cfg a bt ?s ?b (targetDir p) files')"
    by (simp only: td simp_thms)
  have "itemPlan t' lib cfg m' = Some (buildPlan lib cfg a bt ?s ?b (targetDir p) files')"
    unfolding itemPlan_def Let_def
    by (simp add: meta d e dir files split: prod.splits)
  with nc show ?thesis by (simp add: processItem_plan)
qed

lemma example_track_plan:
  "itemPlan trackLibrary ''/lib'' titleOnly ''/lib/x/metadata.json'' = Some trackPlan"
  by code_simp

lemma example_track_scan:
  "map_sum id snd (scan trackLibrary ''/lib'' titleOnly) = Inr [trackPlan]"
  by code_simp

lemma example_track_execute:
  "execute trackLibrary [trackPlan]
     = (trackLibraryAfter, \<lparr>applied = 1, errors = 0, collisions = []\<rparr>)"
  by code_simp

lemma example_track_state:
  "fs_readJson trackLibraryAfter ''/lib/A/T/metadata.json''
     = fs_readJson trackLibrary ''/lib/x/metadata.json''
   \<and> path_dirname ''/lib/A/T/metadata.json'' = targetDir trackPlan
   \<and> fs_readdir trackLibraryAfter (targetDir trackPlan)
       = Some [''T - 01.mp3'', ''T - 02.mp3'', ''metadata.json'']"
  by code_simp

lemma example_track_names:
  "mset [''T - 01.mp3'', ''T - 02.mp3'', ''metadata.json''] = mset (map newName (movePlan trackPlan))
   \<and> audioCount trackPlan \<le> 9"
  by (simp add: trackPlan_def audioCount_def)

text \<open>
  From the tenth track on the order of the audio sort differs from the order of the
  numbers.
\<close>

lemma tenth_track_order:
  "sortAudio [''T - 01.mp3'', ''T - 02.mp3'', ''T - 10.mp3'']
     = [''T - 01.mp3'', ''T - 10.mp3'', ''T - 02.mp3'']"
  by code_simp

lemma replan_in_place_example:
  "itemPlan trackLibrary ''/lib'' titleOnly ''/lib/x/metadata.json'' = Some trackPlan
   \<and> execute trackLibrary [trackPlan]
       = (trackLibraryAfter, \<lparr>applied = 1, errors = 0, collisions = []\<rparr>)
   \<and> fs_readJson trackLibraryAfter ''/lib/A/T/metadata.json''
       = fs_readJson trackLibrary ''/lib/x/metadata.json''
   \<and> path_dirname ''/lib/A/T/metadata.json'' = targetDir trackPlan
   \<and> fs_readdir trackLibraryAfter (targetDir trackPlan)
       = Some [''T - 01.mp3'', ''T - 02.mp3'', ''metadata.json'']
   \<and> mset [''T - 01.mp3'', ''T - 02.mp3'', ''metadata.json'']
       = mset (map newName (movePlan trackPlan))
   \<and> audioCount trackPlan \<le> 9
   \<and> snd (processItem trackLibraryAfter ''/lib'' titleOnly ''/lib/A/T/metadata.json'' emptyStats)
       = None"
proof -
  note s = example_track_state
  note n = example_track_names
  have "snd (processItem trackLibraryAfter ''/lib'' titleOnly ''/lib/A/T/metadata.json'' emptyStats)
          = None"
    using example_track_plan s [THEN conjunct1] s [THEN conjunct2, THEN conjunct1]
      s [THEN conjunct2, THEN conjunct2] n [THEN conjunct1]
    by (rule replan_in_place) (simp only: n [THEN conjunct2] simp_thms)
  with example_track_plan example_track_execute s n show ?thesis by (simp only: simp_thms)
qed

end
